theory Spec2Isabelle
  imports Complex_Main "HOL-Library.Log_Nat"
begin

section \<open>The GeoJSON to polygons converter (utils/geojson-to-polygons.py)\<close>

text \<open>
  The script reads a GeoJSON feature collection, collects labelled points and simple
  polygons, computes their common bounding box, derives a shift and a scale per axis
  and prints the transformed points and polygons.

  The embedding starts after \<^verbatim>\<open>geojson = json.load(sys.stdin)\<close>: its input is the list
  \<^verbatim>\<open>geojson['features']\<close> of parsed features. Python values are modelled as far as the
  script can meet them in a document whose coordinates are built from numbers and
  arrays: integers are unbounded, floats are IEEE binary64 values with Python's
  rounding (round to nearest, ties to even) and Python's exceptions. A number written
  with a fraction or an exponent is a float, any other an int; a literal beyond the
  range of binary64 is read as an infinity, and a standard JSON document holds no NaN.

  A run is the list of the lines it has printed, each with the values it shows, and the
  exception that ended it, if one did.
\<close>

subsection \<open>Python exceptions\<close>

datatype error =
    KeyError string
  | TypeError
  | IndexError
  | AssertionError
  | Exception string
  | ZeroDivisionError
  | OverflowError

subsection \<open>Python floats: binary64\<close>

text \<open>
  A float is a finite binary64 value (given by the rational it denotes), an infinity
  or a NaN. The two zeros are identified: their sign shows only in the printed text,
  never in a comparison or in the value of \<open>+\<close>, \<open>-\<close>, \<open>*\<close>, and Python raises on a
  division by either zero.
\<close>

datatype float64 = Fin rat | PInf | NInf | NaN

definition round_half_even :: "rat \<Rightarrow> int" where
  "round_half_even q =
     (let f = \<lfloor>q\<rfloor>; d = q - of_int f
      in if d < 1 / 2 then f else if 1 / 2 < d then f + 1 else if even f then f else f + 1)"

text \<open>\<open>ilog2 q\<close> is \<open>\<lfloor>log\<^sub>2 q\<rfloor>\<close> for a positive rational \<open>q\<close>.\<close>

definition ilog2 :: "rat \<Rightarrow> int" where
  "ilog2 q = (if 1 \<le> q then bitlen \<lfloor>q\<rfloor> - 1 else - bitlen (\<lceil>1 / q\<rceil> - 1))"

text \<open>
  Rounding of an exact result to binary64: 53 significant bits, least exponent
  \<open>-1074\<close> (gradual underflow), overflow to an infinity from \<open>2\<^sup>1\<^sup>0\<^sup>2\<^sup>4\<close> on.
\<close>

definition round64 :: "rat \<Rightarrow> float64" where
  "round64 q =
     (if q = 0 then Fin 0
      else let e = max (ilog2 \<bar>q\<bar> - 52) (- 1074);
               m = round_half_even (\<bar>q\<bar> / 2 powi e);
               r = of_int m * 2 powi e
           in if 2 ^ 1024 \<le> r then (if 0 < q then PInf else NInf)
              else Fin (if 0 < q then r else - r))"

fun float_add :: "float64 \<Rightarrow> float64 \<Rightarrow> float64" where
  "float_add (Fin a) (Fin b) = round64 (a + b)"
| "float_add NaN _ = NaN"
| "float_add _ NaN = NaN"
| "float_add PInf NInf = NaN"
| "float_add NInf PInf = NaN"
| "float_add PInf _ = PInf"
| "float_add NInf _ = NInf"
| "float_add _ PInf = PInf"
| "float_add _ NInf = NInf"

fun float_sub :: "float64 \<Rightarrow> float64 \<Rightarrow> float64" where
  "float_sub (Fin a) (Fin b) = round64 (a - b)"
| "float_sub NaN _ = NaN"
| "float_sub _ NaN = NaN"
| "float_sub PInf PInf = NaN"
| "float_sub NInf NInf = NaN"
| "float_sub PInf _ = PInf"
| "float_sub NInf _ = NInf"
| "float_sub _ PInf = NInf"
| "float_sub _ NInf = PInf"

fun float_mul :: "float64 \<Rightarrow> float64 \<Rightarrow> float64" where
  "float_mul (Fin a) (Fin b) = round64 (a * b)"
| "float_mul NaN _ = NaN"
| "float_mul _ NaN = NaN"
| "float_mul (Fin a) PInf = (if a = 0 then NaN else if 0 < a then PInf else NInf)"
| "float_mul (Fin a) NInf = (if a = 0 then NaN else if 0 < a then NInf else PInf)"
| "float_mul PInf (Fin b) = (if b = 0 then NaN else if 0 < b then PInf else NInf)"
| "float_mul NInf (Fin b) = (if b = 0 then NaN else if 0 < b then NInf else PInf)"
| "float_mul PInf PInf = PInf"
| "float_mul PInf NInf = NInf"
| "float_mul NInf PInf = NInf"
| "float_mul NInf NInf = PInf"

text \<open>Python checks the divisor first: \<^verbatim>\<open>float division by zero\<close> whatever the dividend.\<close>

fun float_div :: "float64 \<Rightarrow> float64 \<Rightarrow> error + float64" where
  "float_div a (Fin b) =
     (if b = 0 then Inl ZeroDivisionError
      else case a of
             Fin x \<Rightarrow> Inr (round64 (x / b))
           | PInf \<Rightarrow> Inr (if 0 < b then PInf else NInf)
           | NInf \<Rightarrow> Inr (if 0 < b then NInf else PInf)
           | NaN \<Rightarrow> Inr NaN)"
| "float_div (Fin x) PInf = Inr (Fin 0)"
| "float_div (Fin x) NInf = Inr (Fin 0)"
| "float_div _ _ = Inr NaN"

fun float_lt :: "float64 \<Rightarrow> float64 \<Rightarrow> bool" where
  "float_lt (Fin a) (Fin b) = (a < b)"
| "float_lt NaN _ = False"
| "float_lt _ NaN = False"
| "float_lt _ NInf = False"
| "float_lt PInf _ = False"
| "float_lt NInf _ = True"
| "float_lt _ PInf = True"

fun float_eq :: "float64 \<Rightarrow> float64 \<Rightarrow> bool" where
  "float_eq (Fin a) (Fin b) = (a = b)"
| "float_eq PInf PInf = True"
| "float_eq NInf NInf = True"
| "float_eq _ _ = False"

subsection \<open>Python numbers: int and float\<close>

datatype pynum = PInt int | PFloat float64

text \<open>
  An int meeting a float in \<open>+\<close>, \<open>-\<close>, \<open>*\<close>, \<open>/\<close> is converted to the nearest float first;
  \<^verbatim>\<open>OverflowError: int too large to convert to float\<close> when there is none.
\<close>

fun to_float :: "pynum \<Rightarrow> error + float64" where
  "to_float (PInt i) = (case round64 (of_int i) of Fin r \<Rightarrow> Inr (Fin r) | _ \<Rightarrow> Inl OverflowError)"
| "to_float (PFloat x) = Inr x"

definition float_op :: "(float64 \<Rightarrow> float64 \<Rightarrow> error + float64) \<Rightarrow> pynum \<Rightarrow> pynum \<Rightarrow> error + pynum" where
  "float_op f a b =
     (case to_float a of Inl e \<Rightarrow> Inl e | Inr x \<Rightarrow>
      case to_float b of Inl e \<Rightarrow> Inl e | Inr y \<Rightarrow>
      case f x y of Inl e \<Rightarrow> Inl e | Inr z \<Rightarrow> Inr (PFloat z))"

fun num_add :: "pynum \<Rightarrow> pynum \<Rightarrow> error + pynum" where
  "num_add (PInt i) (PInt j) = Inr (PInt (i + j))"
| "num_add a b = float_op (\<lambda>x y. Inr (float_add x y)) a b"

fun num_sub :: "pynum \<Rightarrow> pynum \<Rightarrow> error + pynum" where
  "num_sub (PInt i) (PInt j) = Inr (PInt (i - j))"
| "num_sub a b = float_op (\<lambda>x y. Inr (float_sub x y)) a b"

fun num_mul :: "pynum \<Rightarrow> pynum \<Rightarrow> error + pynum" where
  "num_mul (PInt i) (PInt j) = Inr (PInt (i * j))"
| "num_mul a b = float_op (\<lambda>x y. Inr (float_mul x y)) a b"

text \<open>
  True division. Of two ints it is the correctly rounded quotient (the script never
  divides two ints: one operand of each of its divisions is a float).
\<close>

fun num_div :: "pynum \<Rightarrow> pynum \<Rightarrow> error + pynum" where
  "num_div (PInt i) (PInt j) =
     (if j = 0 then Inl ZeroDivisionError
      else case round64 (of_int i / of_int j) of
             Fin r \<Rightarrow> Inr (PFloat (Fin r))
           | _ \<Rightarrow> Inl OverflowError)"
| "num_div a b = float_op float_div a b"

text \<open>Comparisons of an int with a float are exact: no conversion, no rounding.\<close>

fun exact_value :: "pynum \<Rightarrow> float64" where
  "exact_value (PInt i) = Fin (of_int i)"
| "exact_value (PFloat x) = x"

definition num_lt :: "pynum \<Rightarrow> pynum \<Rightarrow> bool" where
  "num_lt a b = float_lt (exact_value a) (exact_value b)"

definition num_eq :: "pynum \<Rightarrow> pynum \<Rightarrow> bool" where
  "num_eq a b = float_eq (exact_value a) (exact_value b)"

subsection \<open>Python values met in coordinates: numbers and lists\<close>

datatype pyval = Num pynum | Arr "pyval list"

fun py_len :: "pyval \<Rightarrow> error + nat" where
  "py_len (Arr xs) = Inr (length xs)"
| "py_len (Num _) = Inl TypeError"

fun py_index :: "pyval \<Rightarrow> nat \<Rightarrow> error + pyval" where
  "py_index (Arr xs) i = (if i < length xs then Inr (xs ! i) else Inl IndexError)"
| "py_index (Num _) i = Inl TypeError"

fun py_eq :: "pyval \<Rightarrow> pyval \<Rightarrow> bool"
  and list_eq :: "pyval list \<Rightarrow> pyval list \<Rightarrow> bool" where
  "py_eq (Num a) (Num b) = num_eq a b"
| "py_eq (Arr xs) (Arr ys) = list_eq xs ys"
| "py_eq _ _ = False"
| "list_eq [] [] = True"
| "list_eq (x # xs) (y # ys) = (py_eq x y \<and> list_eq xs ys)"
| "list_eq _ _ = False"

text \<open>
  \<open><\<close> on lists compares the first pair of unequal items, the lengths when there is
  none; a number against a list is a \<^verbatim>\<open>TypeError\<close>.
\<close>

fun py_lt :: "pyval \<Rightarrow> pyval \<Rightarrow> error + bool"
  and list_lt :: "pyval list \<Rightarrow> pyval list \<Rightarrow> error + bool" where
  "py_lt (Num a) (Num b) = Inr (num_lt a b)"
| "py_lt (Arr xs) (Arr ys) = list_lt xs ys"
| "py_lt _ _ = Inl TypeError"
| "list_lt [] [] = Inr False"
| "list_lt [] (y # ys) = Inr True"
| "list_lt (x # xs) [] = Inr False"
| "list_lt (x # xs) (y # ys) = (if py_eq x y then list_lt xs ys else py_lt x y)"

fun lift_num :: "error + pynum \<Rightarrow> error + pyval" where
  "lift_num (Inl e) = Inl e"
| "lift_num (Inr n) = Inr (Num n)"

fun py_add :: "pyval \<Rightarrow> pyval \<Rightarrow> error + pyval" where
  "py_add (Num a) (Num b) = lift_num (num_add a b)"
| "py_add (Arr xs) (Arr ys) = Inr (Arr (xs @ ys))"
| "py_add _ _ = Inl TypeError"

fun py_sub :: "pyval \<Rightarrow> pyval \<Rightarrow> error + pyval" where
  "py_sub (Num a) (Num b) = lift_num (num_sub a b)"
| "py_sub _ _ = Inl TypeError"

fun py_mul :: "pyval \<Rightarrow> pyval \<Rightarrow> error + pyval" where
  "py_mul (Num a) (Num b) = lift_num (num_mul a b)"
| "py_mul (Arr xs) (Num (PInt n)) = Inr (Arr (concat (replicate (nat n) xs)))"
| "py_mul (Num (PInt n)) (Arr xs) = Inr (Arr (concat (replicate (nat n) xs)))"
| "py_mul _ _ = Inl TypeError"

fun py_div :: "pyval \<Rightarrow> pyval \<Rightarrow> error + pyval" where
  "py_div (Num a) (Num b) = lift_num (num_div a b)"
| "py_div _ _ = Inl TypeError"

text \<open>
  \<^verbatim>\<open>min(a, b)\<close> keeps \<open>a\<close> unless \<open>b < a\<close>; \<^verbatim>\<open>max(a, b)\<close> keeps \<open>a\<close> unless \<open>b > a\<close>.
\<close>

definition py_min :: "pyval \<Rightarrow> pyval \<Rightarrow> error + pyval" where
  "py_min a b = (case py_lt b a of Inl e \<Rightarrow> Inl e | Inr t \<Rightarrow> Inr (if t then b else a))"

definition py_max :: "pyval \<Rightarrow> pyval \<Rightarrow> error + pyval" where
  "py_max a b = (case py_lt a b of Inl e \<Rightarrow> Inl e | Inr t \<Rightarrow> Inr (if t then b else a))"

subsection \<open>The input: features\<close>

text \<open>
  A feature has a geometry with a \<^verbatim>\<open>type\<close> string and, when the member is there, its
  \<^verbatim>\<open>coordinates\<close>; \<open>name\<close> is \<^verbatim>\<open>feature['properties']['name']\<close> when \<^verbatim>\<open>properties\<close> has
  that member.
\<close>

record geometry =
  geometry_type :: string
  coordinates :: "pyval option"

record feature =
  geometry :: geometry
  name :: "string option"

type_synonym point = "pyval \<times> pyval \<times> string"
type_synonym polygon = "(pyval \<times> pyval) list"

subsection \<open>Lines 15 to 32: the features loop\<close>

text \<open>\<^verbatim>\<open>(v[0], v[1])\<close>\<close>

definition vertex :: "pyval \<Rightarrow> error + (pyval \<times> pyval)" where
  "vertex v =
     (case py_index v 0 of Inl e \<Rightarrow> Inl e | Inr x \<Rightarrow>
      case py_index v 1 of Inl e \<Rightarrow> Inl e | Inr y \<Rightarrow> Inr (x, y))"

text \<open>\<^verbatim>\<open>[(v[0], v[1]) for v in vs]\<close>\<close>

fun vertices :: "pyval list \<Rightarrow> error + polygon" where
  "vertices [] = Inr []"
| "vertices (v # vs) =
     (case vertex v of Inl e \<Rightarrow> Inl e | Inr p \<Rightarrow>
      case vertices vs of Inl e \<Rightarrow> Inl e | Inr ps \<Rightarrow> Inr (p # ps))"

definition parse_point :: "feature \<Rightarrow> pyval \<Rightarrow> error + point" where
  "parse_point f cs =
     (case py_len cs of Inl e \<Rightarrow> Inl e | Inr n \<Rightarrow>
      if n \<noteq> 2 then Inl AssertionError
      else case name f of None \<Rightarrow> Inl (KeyError ''name'') | Some nm \<Rightarrow>
      case py_index cs 0 of Inl e \<Rightarrow> Inl e | Inr x \<Rightarrow>
      case py_index cs 1 of Inl e \<Rightarrow> Inl e | Inr y \<Rightarrow> Inr (x, y, nm))"

definition parse_polygon :: "pyval \<Rightarrow> error + polygon" where
  "parse_polygon cs =
     (case py_len cs of Inl e \<Rightarrow> Inl e | Inr n \<Rightarrow>
      if n \<noteq> 1 then Inl AssertionError
      else case py_index cs 0 of Inl e \<Rightarrow> Inl e | Inr outer_ring \<Rightarrow>
      case py_len outer_ring of Inl e \<Rightarrow> Inl e | Inr k \<Rightarrow>
      if \<not> 4 \<le> k then Inl AssertionError
      else case outer_ring of
             Num _ \<Rightarrow> Inl TypeError
           | Arr ring \<Rightarrow>
               if \<not> py_eq (hd ring) (last ring) then Inl AssertionError
               else vertices (butlast ring))"

text \<open>The body of the loop, on the two lists collected so far.\<close>

definition parse_feature :: "point list \<times> polygon list \<Rightarrow> feature \<Rightarrow> error + (point list \<times> polygon list)" where
  "parse_feature acc f =
     (case coordinates (geometry f) of
        None \<Rightarrow> Inl (KeyError ''coordinates'')
      | Some cs \<Rightarrow>
          if geometry_type (geometry f) = ''Point'' then
            (case parse_point f cs of Inl e \<Rightarrow> Inl e
             | Inr p \<Rightarrow> Inr (fst acc @ [p], snd acc))
          else if geometry_type (geometry f) = ''Polygon'' then
            (case parse_polygon cs of Inl e \<Rightarrow> Inl e
             | Inr vs \<Rightarrow> Inr (fst acc, snd acc @ [vs]))
          else Inl (Exception (''Unexpected geometry type: '' @ geometry_type (geometry f))))"

fun parse_features :: "point list \<times> polygon list \<Rightarrow> feature list \<Rightarrow> error + (point list \<times> polygon list)" where
  "parse_features acc [] = Inr acc"
| "parse_features acc (f # fs) =
     (case parse_feature acc f of Inl e \<Rightarrow> Inl e | Inr acc' \<Rightarrow> parse_features acc' fs)"

subsection \<open>Lines 34 to 48: the bounding box\<close>

record box =
  x_min :: pyval
  x_max :: pyval
  y_min :: pyval
  y_max :: pyval

text \<open>The four assignments of a loop body, in the order of the source.\<close>

definition extend_box :: "box \<Rightarrow> pyval \<times> pyval \<Rightarrow> error + box" where
  "extend_box b p =
     (case py_min (x_min b) (fst p) of Inl e \<Rightarrow> Inl e | Inr xl \<Rightarrow>
      case py_max (x_max b) (fst p) of Inl e \<Rightarrow> Inl e | Inr xh \<Rightarrow>
      case py_min (y_min b) (snd p) of Inl e \<Rightarrow> Inl e | Inr yl \<Rightarrow>
      case py_max (y_max b) (snd p) of Inl e \<Rightarrow> Inl e | Inr yh \<Rightarrow>
      Inr \<lparr>x_min = xl, x_max = xh, y_min = yl, y_max = yh\<rparr>)"

fun extend_all :: "box \<Rightarrow> (pyval \<times> pyval) list \<Rightarrow> error + box" where
  "extend_all b [] = Inr b"
| "extend_all b (p # ps) =
     (case extend_box b p of Inl e \<Rightarrow> Inl e | Inr b' \<Rightarrow> extend_all b' ps)"

fun extend_polygons :: "box \<Rightarrow> polygon list \<Rightarrow> error + box" where
  "extend_polygons b [] = Inr b"
| "extend_polygons b (polygon # polygons) =
     (case extend_all b polygon of Inl e \<Rightarrow> Inl e | Inr b' \<Rightarrow> extend_polygons b' polygons)"

definition xy :: "point \<Rightarrow> pyval \<times> pyval" where
  "xy p = (fst p, fst (snd p))"

text \<open>\<^verbatim>\<open>points[0]\<close> raises \<^verbatim>\<open>IndexError\<close> on an empty list.\<close>

definition bounding_box :: "point list \<Rightarrow> polygon list \<Rightarrow> error + box" where
  "bounding_box points polygons =
     (case points of
        [] \<Rightarrow> Inl IndexError
      | p # _ \<Rightarrow>
          (case extend_all \<lparr>x_min = fst (xy p), x_max = fst (xy p),
                            y_min = snd (xy p), y_max = snd (xy p)\<rparr> (map xy points) of
             Inl e \<Rightarrow> Inl e
           | Inr b \<Rightarrow> extend_polygons b polygons))"

subsection \<open>Lines 50 to 53: shift and scale\<close>

definition MAP_SIZE :: pyval where
  "MAP_SIZE = Num (PFloat (Fin 1000))"

definition MARGIN :: pyval where
  "MARGIN = Num (PFloat (Fin 50))"

record transform =
  x_shift :: pyval
  x_scale :: pyval
  y_shift :: pyval
  y_scale :: pyval

text \<open>\<^verbatim>\<open>(hi + lo) / 2.\<close>\<close>

definition shift :: "pyval \<Rightarrow> pyval \<Rightarrow> error + pyval" where
  "shift hi lo =
     (case py_add hi lo of Inl e \<Rightarrow> Inl e | Inr s \<Rightarrow> py_div s (Num (PFloat (Fin 2))))"

text \<open>\<^verbatim>\<open>(MAP_SIZE - MARGIN) / (hi - lo)\<close>\<close>

definition scale :: "pyval \<Rightarrow> pyval \<Rightarrow> error + pyval" where
  "scale hi lo =
     (case py_sub MAP_SIZE MARGIN of Inl e \<Rightarrow> Inl e | Inr extent \<Rightarrow>
      case py_sub hi lo of Inl e \<Rightarrow> Inl e | Inr width \<Rightarrow> py_div extent width)"

definition build_transform :: "box \<Rightarrow> error + transform" where
  "build_transform b =
     (case shift (x_max b) (x_min b) of Inl e \<Rightarrow> Inl e | Inr xs \<Rightarrow>
      case scale (x_max b) (x_min b) of Inl e \<Rightarrow> Inl e | Inr xc \<Rightarrow>
      case shift (y_max b) (y_min b) of Inl e \<Rightarrow> Inl e | Inr ys \<Rightarrow>
      case scale (y_max b) (y_min b) of Inl e \<Rightarrow> Inl e | Inr yc \<Rightarrow>
      Inr \<lparr>x_shift = xs, x_scale = xc, y_shift = ys, y_scale = yc\<rparr>)"

subsection \<open>Lines 55 to 66: the output\<close>

text \<open>
  A printed line, with the values it shows instead of their text:
  \<^verbatim>\<open>Point {name}: ({x}, {y})\<close>, the opening line
  \<^verbatim>\<open>Ichnography::from(ConvexPolygon::from_convex_hull(&[\<close>, \<^verbatim>\<open>Point::new({x}, {y}),\<close> and
  the closing line \<^verbatim>\<open>]).unwrap()),\<close>.
\<close>

datatype line =
    PointLine string pyval pyval
  | PolygonOpen
  | VertexLine pyval pyval
  | PolygonClose

text \<open>\<^verbatim>\<open>scale * (v - shift)\<close>\<close>

definition transform_coord :: "pyval \<Rightarrow> pyval \<Rightarrow> pyval \<Rightarrow> error + pyval" where
  "transform_coord scl sh v =
     (case py_sub v sh of Inl e \<Rightarrow> Inl e | Inr d \<Rightarrow> py_mul scl d)"

definition transform_xy :: "transform \<Rightarrow> pyval \<times> pyval \<Rightarrow> error + (pyval \<times> pyval)" where
  "transform_xy t p =
     (case transform_coord (x_scale t) (x_shift t) (fst p) of Inl e \<Rightarrow> Inl e | Inr x \<Rightarrow>
      case transform_coord (y_scale t) (y_shift t) (snd p) of Inl e \<Rightarrow> Inl e | Inr y \<Rightarrow>
      Inr (x, y))"

text \<open>
  The printing loops give the lines printed and the exception that stopped them,
  if one did.
\<close>

fun emit_points :: "transform \<Rightarrow> point list \<Rightarrow> line list \<times> error option" where
  "emit_points t [] = ([], None)"
| "emit_points t (p # ps) =
     (case transform_xy t (xy p) of
        Inl e \<Rightarrow> ([], Some e)
      | Inr (x, y) \<Rightarrow>
          (PointLine (snd (snd p)) x y # fst (emit_points t ps), snd (emit_points t ps)))"

fun emit_vertices :: "transform \<Rightarrow> polygon \<Rightarrow> line list \<times> error option" where
  "emit_vertices t [] = ([], None)"
| "emit_vertices t (p # ps) =
     (case transform_xy t p of
        Inl e \<Rightarrow> ([], Some e)
      | Inr (x, y) \<Rightarrow>
          (VertexLine x y # fst (emit_vertices t ps), snd (emit_vertices t ps)))"

definition emit_polygon :: "transform \<Rightarrow> polygon \<Rightarrow> line list \<times> error option" where
  "emit_polygon t polygon =
     (case snd (emit_vertices t polygon) of
        Some e \<Rightarrow> (PolygonOpen # fst (emit_vertices t polygon), Some e)
      | None \<Rightarrow> (PolygonOpen # fst (emit_vertices t polygon) @ [PolygonClose], None))"

fun emit_polygons :: "transform \<Rightarrow> polygon list \<Rightarrow> line list \<times> error option" where
  "emit_polygons t [] = ([], None)"
| "emit_polygons t (polygon # polygons) =
     (case snd (emit_polygon t polygon) of
        Some e \<Rightarrow> (fst (emit_polygon t polygon), Some e)
      | None \<Rightarrow>
          (fst (emit_polygon t polygon) @ fst (emit_polygons t polygons),
           snd (emit_polygons t polygons)))"

definition emit :: "transform \<Rightarrow> point list \<Rightarrow> polygon list \<Rightarrow> line list \<times> error option" where
  "emit t points polygons =
     (case snd (emit_points t points) of
        Some e \<Rightarrow> (fst (emit_points t points), Some e)
      | None \<Rightarrow>
          (fst (emit_points t points) @ fst (emit_polygons t polygons),
           snd (emit_polygons t polygons)))"

subsection \<open>The script\<close>

text \<open>The lines printed, and the exception that ended the run if one did.\<close>

definition main :: "feature list \<Rightarrow> line list \<times> error option" where
  "main features =
     (case parse_features ([], []) features of
        Inl e \<Rightarrow> ([], Some e)
      | Inr (points, polygons) \<Rightarrow>
          (case bounding_box points polygons of
             Inl e \<Rightarrow> ([], Some e)
           | Inr b \<Rightarrow>
               (case build_transform b of
                  Inl e \<Rightarrow> ([], Some e)
                | Inr t \<Rightarrow> emit t points polygons)))"

subsection \<open>Inputs used in the examples\<close>

definition int_pair :: "int \<Rightarrow> int \<Rightarrow> pyval" where
  "int_pair a b = Arr [Num (PInt a), Num (PInt b)]"

definition point_feature :: "string \<Rightarrow> pyval \<Rightarrow> feature" where
  "point_feature nm cs =
     \<lparr>geometry = \<lparr>geometry_type = ''Point'', coordinates = Some cs\<rparr>, name = Some nm\<rparr>"

definition polygon_feature :: "pyval list \<Rightarrow> feature" where
  "polygon_feature ring =
     \<lparr>geometry = \<lparr>geometry_type = ''Polygon'', coordinates = Some (Arr [Arr ring])\<rparr>,
      name = None\<rparr>"

text \<open>The triangle of the scenario: \<^verbatim>\<open>[[0,0],[20,0],[20,20],[0,0]]\<close>.\<close>

definition triangle :: "pyval list" where
  "triangle = [int_pair 0 0, int_pair 20 0, int_pair 20 20, int_pair 0 0]"

text \<open>The scenario: one point \<^verbatim>\<open>A\<close> at \<^verbatim>\<open>[10, 10]\<close> and the triangle.\<close>

definition scenario :: "feature list" where
  "scenario = [point_feature ''A'' (int_pair 10 10), polygon_feature triangle]"

text \<open>A GeoJSON geometry collection has \<^verbatim>\<open>geometries\<close> and no \<^verbatim>\<open>coordinates\<close>.\<close>

definition geometry_collection :: feature where
  "geometry_collection =
     \<lparr>geometry = \<lparr>geometry_type = ''GeometryCollection'', coordinates = None\<rparr>, name = None\<rparr>"

definition line_string :: feature where
  "line_string =
     \<lparr>geometry = \<lparr>geometry_type = ''LineString'',
                   coordinates = Some (Arr [int_pair 0 0, int_pair 1 1])\<rparr>, name = None\<rparr>"

text \<open>Four equal coordinate pairs: a closed ring with one distinct vertex.\<close>

definition collapsed_ring :: "pyval list" where
  "collapsed_ring = [int_pair 0 0, int_pair 0 0, int_pair 0 0, int_pair 0 0]"

definition short_ring :: "pyval list" where
  "short_ring = [int_pair 0 0, int_pair 20 0, int_pair 0 0]"

text \<open>The triangle with a third component in every position.\<close>

definition ring_with_heights :: "pyval list" where
  "ring_with_heights =
     [Arr [Num (PInt 0), Num (PInt 0), Num (PInt 5)],
      Arr [Num (PInt 20), Num (PInt 0), Num (PInt 6)],
      Arr [Num (PInt 20), Num (PInt 20), Num (PInt 7)],
      Arr [Num (PInt 0), Num (PInt 0), Num (PInt 5)]]"

definition interleaved :: "feature list" where
  "interleaved =
     [polygon_feature triangle, point_feature ''A'' (int_pair 10 10),
      polygon_feature triangle, point_feature ''B'' (int_pair 20 0)]"

text \<open>One point alone; two points on a vertical line; two points near the largest float.\<close>

definition lone_point :: "feature list" where
  "lone_point = [point_feature ''A'' (int_pair 10 10)]"

definition vertical_pair :: "feature list" where
  "vertical_pair = [point_feature ''A'' (int_pair 10 5), point_feature ''B'' (int_pair 10 7)]"

definition huge_pair :: "feature list" where
  "huge_pair =
     [point_feature ''A'' (Arr [Num (PFloat (Fin (2 ^ 1023))), Num (PInt 0)]),
      point_feature ''B'' (Arr [Num (PFloat (Fin (3 * 2 ^ 1022))), Num (PInt 1)])]"



text \<open>
  An int too large for a float, \<open>2\<^sup>1\<^sup>0\<^sup>2\<^sup>4\<close>, as a vertex of a polygon between two points
  whose abscissas are the literals \<^verbatim>\<open>-1e999\<close> and \<^verbatim>\<open>1e999\<close>, read as \<^verbatim>\<open>-inf\<close> and \<^verbatim>\<open>inf\<close>.
\<close>

definition beyond_float :: int where
  "beyond_float = 2 ^ 1024"

definition cut_block :: "feature list" where
  "cut_block =
     [point_feature ''A'' (Arr [Num (PFloat NInf), Num (PInt 0)]),
      point_feature ''B'' (Arr [Num (PFloat PInf), Num (PInt 1)]),
      polygon_feature [int_pair 0 0, int_pair beyond_float 0, int_pair 0 1, int_pair 0 0]]"

text \<open>
  One point whose abscissa is the int \<open>2\<^sup>1\<^sup>0\<^sup>2\<^sup>3\<close>; two points with the abscissa \<^verbatim>\<open>inf\<close>.
\<close>

definition half_beyond :: int where
  "half_beyond = 2 ^ 1023"

definition huge_point :: "feature list" where
  "huge_point = [point_feature ''A'' (int_pair half_beyond 0)]"

definition infinite_pair :: "feature list" where
  "infinite_pair =
     [point_feature ''A'' (Arr [Num (PFloat PInf), Num (PInt 0)]),
      point_feature ''B'' (Arr [Num (PFloat PInf), Num (PInt 1)])]"

text \<open>
  Two points whose abscissas are \<open>0.0\<close> and the least positive float, \<^verbatim>\<open>5e-324\<close>; two
  points whose abscissas are the float \<open>2\<^sup>5\<^sup>3 + 2\<close> and the int \<open>2\<^sup>5\<^sup>3 + 3\<close>; two points
  whose abscissas are the floats \<open>1\<close> and \<open>1 + 2\<^sup>-\<^sup>5\<^sup>2\<close>.
\<close>

definition least_float :: rat where
  "least_float = 1 / 2 ^ 1074"

definition tiny_pair :: "feature list" where
  "tiny_pair =
     [point_feature ''A'' (Arr [Num (PFloat (Fin 0)), Num (PInt 0)]),
      point_feature ''B'' (Arr [Num (PFloat (Fin least_float)), Num (PInt 1)])]"

definition mixed_pair :: "feature list" where
  "mixed_pair =
     [point_feature ''A'' (Arr [Num (PFloat (Fin 9007199254740994)), Num (PInt 0)]),
      point_feature ''B'' (Arr [Num (PInt 9007199254740995), Num (PInt 1)])]"

definition next_after_one :: rat where
  "next_after_one = 1 + 1 / 2 ^ 52"

definition close_pair :: "feature list" where
  "close_pair =
     [point_feature ''A'' (Arr [Num (PFloat (Fin 1)), Num (PInt 0)]),
      point_feature ''B'' (Arr [Num (PFloat (Fin next_after_one)), Num (PInt 1)])]"

subsection \<open>Notions used in the statements\<close>

text \<open>A list with at least two items, and its first two items.\<close>

fun two_or_more :: "pyval \<Rightarrow> bool" where
  "two_or_more (Arr (x # y # zs)) = True"
| "two_or_more v = False"

fun first_two :: "pyval \<Rightarrow> pyval \<times> pyval" where
  "first_two (Arr (x # y # zs)) = (x, y)"
| "first_two v = (v, v)"

fun is_point_line :: "line \<Rightarrow> bool" where
  "is_point_line (PointLine nm x y) = True"
| "is_point_line l = False"

text \<open>The exact value of a finite number.\<close>

fun val :: "pynum \<Rightarrow> rat" where
  "val (PInt i) = of_int i"
| "val (PFloat (Fin q)) = q"
| "val (PFloat _) = 0"

fun finite_num :: "pynum \<Rightarrow> bool" where
  "finite_num (PInt i) = True"
| "finite_num (PFloat (Fin q)) = True"
| "finite_num (PFloat _) = False"

text \<open>A pair of finite numbers.\<close>

definition numeric :: "pyval \<times> pyval \<Rightarrow> bool" where
  "numeric p = (\<exists>a b. p = (Num a, Num b) \<and> finite_num a \<and> finite_num b)"

text \<open>All the coordinate pairs the bounding box is taken over.\<close>

definition coords :: "point list \<Rightarrow> polygon list \<Rightarrow> (pyval \<times> pyval) list" where
  "coords points polygons = map xy points @ concat polygons"

text \<open>
  \<open>box_of cs b\<close>: the four fields of \<open>b\<close> are numbers met in \<open>cs\<close>, and they bound every
  pair of numbers in \<open>cs\<close>.
\<close>

definition box_of :: "(pyval \<times> pyval) list \<Rightarrow> box \<Rightarrow> bool" where
  "box_of cs b =
     (\<exists>xl xh yl yh.
        b = \<lparr>x_min = Num xl, x_max = Num xh, y_min = Num yl, y_max = Num yh\<rparr>
        \<and> finite_num xl \<and> finite_num xh \<and> finite_num yl \<and> finite_num yh
        \<and> Num xl \<in> fst ` set cs \<and> Num xh \<in> fst ` set cs
        \<and> Num yl \<in> snd ` set cs \<and> Num yh \<in> snd ` set cs
        \<and> (\<forall>a c. (Num a, Num c) \<in> set cs \<longrightarrow>
              val xl \<le> val a \<and> val a \<le> val xh \<and> val yl \<le> val c \<and> val c \<le> val yh))"

text \<open>
  A number within the binary64 range: an int of magnitude below \<open>2\<^sup>1\<^sup>0\<^sup>2\<^sup>2\<close> (so that a sum
  or a difference of two converts to a float), or a finite binary64 value.
\<close>

fun in_range :: "pynum \<Rightarrow> bool" where
  "in_range (PInt i) = (\<bar>i\<bar> < 2 ^ 1022)"
| "in_range (PFloat (Fin q)) = (round64 q = Fin q)"
| "in_range (PFloat _) = False"

definition in_range_pair :: "pyval \<times> pyval \<Rightarrow> bool" where
  "in_range_pair p = (\<exists>a b. p = (Num a, Num b) \<and> in_range a \<and> in_range b)"

text \<open>\<open>exact64 q\<close>: \<open>q\<close> is a binary64 value, so that rounding leaves it as it is.\<close>

definition exact64 :: "rat \<Rightarrow> bool" where
  "exact64 q = (round64 q = Fin q)"

text \<open>
  A number of a document with a value: an int, or a finite float, which is a binary64
  value.
\<close>

fun json_number :: "pynum \<Rightarrow> bool" where
  "json_number (PInt i) = True"
| "json_number (PFloat (Fin q)) = exact64 q"
| "json_number (PFloat _) = False"

definition json_pair :: "pyval \<times> pyval \<Rightarrow> bool" where
  "json_pair p = (\<exists>a b. p = (Num a, Num b) \<and> json_number a \<and> json_number b)"

text \<open>
  The rings of the \<^verbatim>\<open>Polygon\<close> features of the input, in the order of the features: the
  single item of \<^verbatim>\<open>coordinates\<close> (the empty list when \<^verbatim>\<open>coordinates\<close> is not a list of one
  list).
\<close>

fun single_ring :: "pyval option \<Rightarrow> pyval list" where
  "single_ring (Some (Arr [Arr ring])) = ring"
| "single_ring cs = []"

definition polygon_rings :: "feature list \<Rightarrow> pyval list list" where
  "polygon_rings fs =
     map (\<lambda>f. single_ring (coordinates (geometry f)))
       (filter (\<lambda>f. geometry_type (geometry f) = ''Polygon'') fs)"

text \<open>
  \<open>block_of t ring blk\<close>: the lines \<open>blk\<close> are the opening line, one vertex line for each
  entry of \<open>ring\<close> but the last, the \<open>i\<close>-th showing the transform of \<^verbatim>\<open>(v[0], v[1])\<close> for
  the \<open>i\<close>-th entry \<open>v\<close>, and the closing line.
\<close>

definition block_of :: "transform \<Rightarrow> pyval list \<Rightarrow> line list \<Rightarrow> bool" where
  "block_of t ring blk =
     (\<exists>ls. blk = PolygonOpen # ls @ [PolygonClose] \<and> Suc (length ls) = length ring
        \<and> (\<forall>i < length ls. \<exists>p x y. vertex (ring ! i) = Inr p \<and> transform_xy t p = Inr (x, y)
                                  \<and> ls ! i = VertexLine x y))"

fun num_val :: "pyval \<Rightarrow> rat" where
  "num_val (Num a) = val a"
| "num_val (Arr xs) = 0"

text \<open>
  \<open>nearest q\<close> is the value \<open>q\<close> is rounded to before the overflow test of \<open>round64\<close>;
  \<open>on_grid q\<close>: \<open>q\<close> is a multiple of \<open>2\<^sup>-\<^sup>1\<^sup>0\<^sup>7\<^sup>4\<close>, as every binary64 value is.
\<close>

definition on_grid :: "rat \<Rightarrow> bool" where
  "on_grid q = (\<exists>n::int. q = of_int n / 2 ^ 1074)"

definition nearest :: "rat \<Rightarrow> rat" where
  "nearest q =
     (if q = 0 then 0
      else let e = max (ilog2 \<bar>q\<bar> - 52) (- 1074);
               r = of_int (round_half_even (\<bar>q\<bar> / 2 powi e)) * 2 powi e
           in if 0 < q then r else - r)"

text \<open>
  Two bounds of an axis are of the same kind or exact when both are ints, or both are
  binary64 values (as a float is, and an int that is converted without rounding): then
  no conversion rounds before they are added or subtracted.
\<close>

fun same_kind_or_exact :: "pyval \<Rightarrow> pyval \<Rightarrow> bool" where
  "same_kind_or_exact (Num (PInt i)) (Num (PInt j)) = True"
| "same_kind_or_exact a b = (exact64 (num_val a) \<and> exact64 (num_val b))"

text \<open>The centre of a box, and the float nearest to a rational.\<close>

definition centre_x :: "box \<Rightarrow> rat" where
  "centre_x b = (num_val (x_max b) + num_val (x_min b)) / 2"

definition centre_y :: "box \<Rightarrow> rat" where
  "centre_y b = (num_val (y_max b) + num_val (y_min b)) / 2"

definition float_of :: "rat \<Rightarrow> pyval" where
  "float_of q = Num (PFloat (round64 q))"











section \<open>Facts about binary64 rounding\<close>

lemma powi_nat: "0 \<le> k \<Longrightarrow> (2::rat) powi k = 2 ^ nat k"
  by (simp add: power_int_def)

lemma powi_neg: "0 \<le> k \<Longrightarrow> (2::rat) powi (- k) = 1 / 2 ^ nat k"
  by (simp add: power_int_def field_simps)

lemma of_int_le_pow2: "n \<le> 2 ^ k \<Longrightarrow> (of_int n :: rat) \<le> 2 ^ k"
  by (metis of_int_le_iff of_int_numeral of_int_power)

lemma pow2_le_of_int: "2 ^ k \<le> n \<Longrightarrow> (2::rat) ^ k \<le> of_int n"
  by (metis of_int_le_iff of_int_numeral of_int_power)

lemma ilog2_bounds:
  assumes "0 < q"
  shows "2 powi (ilog2 q) \<le> q \<and> q < 2 powi (ilog2 q + 1)"
proof (cases "1 \<le> q")
  case True
  define n where "n = \<lfloor>q\<rfloor>"
  have n: "0 < n" using True by (simp add: n_def)
  have b: "2 ^ nat (bitlen n - 1) \<le> n" "n < 2 ^ nat (bitlen n)"
    using bitlen_bounds [OF n] by auto
  have k: "1 \<le> bitlen n" using n by (simp add: bitlen_alt_def)
  have il: "ilog2 q = bitlen n - 1" using True by (simp add: ilog2_def n_def)
  have "(2::rat) ^ nat (bitlen n - 1) \<le> of_int n"
    using b(1) by (rule pow2_le_of_int)
  also have "\<dots> \<le> q" by (simp add: n_def)
  finally have lo: "2 powi (ilog2 q) \<le> q" using k by (simp add: il powi_nat)
  have "n + 1 \<le> 2 ^ nat (bitlen n)" using b(2) by simp
  then have "(of_int (n + 1) :: rat) \<le> 2 ^ nat (bitlen n)"
    by (rule of_int_le_pow2)
  moreover have "q < of_int (n + 1)" unfolding n_def by linarith
  ultimately have "q < 2 ^ nat (bitlen n)" by linarith
  then have hi: "q < 2 powi (ilog2 q + 1)" using k by (simp add: il powi_nat)
  show ?thesis using lo hi by simp
next
  case False
  define n where "n = \<lceil>1 / q\<rceil>"
  have q1: "1 < 1 / q" using False assms by (simp add: field_simps)
  have n2: "2 \<le> n" using q1 by (simp add: n_def le_ceiling_iff)
  have n: "0 < n - 1" using n2 by simp
  have b: "2 ^ nat (bitlen (n - 1) - 1) \<le> n - 1" "n - 1 < 2 ^ nat (bitlen (n - 1))"
    using bitlen_bounds [OF n] by auto
  have k: "1 \<le> bitlen (n - 1)" using n by (simp add: bitlen_alt_def)
  have il: "ilog2 q = - bitlen (n - 1)" using False by (simp add: ilog2_def n_def)
  have "n \<le> 2 ^ nat (bitlen (n - 1))" using b(2) by simp
  then have "(of_int n :: rat) \<le> 2 ^ nat (bitlen (n - 1))"
    by (rule of_int_le_pow2)
  moreover have "1 / q \<le> of_int n" by (simp add: n_def)
  ultimately have "1 / q \<le> 2 ^ nat (bitlen (n - 1))" by linarith
  then have "1 / 2 ^ nat (bitlen (n - 1)) \<le> q" using assms by (simp add: field_simps)
  then have lo: "2 powi (ilog2 q) \<le> q" using k by (simp add: il powi_neg)
  have "(2::rat) ^ nat (bitlen (n - 1) - 1) \<le> of_int (n - 1)"
    using b(1) by (rule pow2_le_of_int)
  moreover have "of_int (n - 1) < 1 / q" unfolding n_def by linarith
  ultimately have "2 ^ nat (bitlen (n - 1) - 1) < 1 / q" by linarith
  then have "q < 1 / 2 ^ nat (bitlen (n - 1) - 1)" using assms by (simp add: field_simps)
  moreover have "ilog2 q + 1 = - (bitlen (n - 1) - 1)" by (simp add: il)
  ultimately have hi: "q < 2 powi (ilog2 q + 1)" using k by (simp only: powi_neg)
  show ?thesis using lo hi by simp
qed

lemma ilog2_unique:
  assumes "0 < q" "2 powi k \<le> q" "q < 2 powi (k + 1)"
  shows "ilog2 q = k"
proof -
  have b: "2 powi (ilog2 q) \<le> q" "q < 2 powi (ilog2 q + 1)"
    using ilog2_bounds [OF assms(1)] by auto
  have "(2::rat) powi k < 2 powi (ilog2 q + 1)" using assms(2) b(2) by simp
  then have 1: "k < ilog2 q + 1"
    using power_int_increasing [of "ilog2 q + 1" k "2::rat"] by (cases "k < ilog2 q + 1") auto
  have "(2::rat) powi (ilog2 q) < 2 powi (k + 1)" using assms(3) b(1) by simp
  then have 2: "ilog2 q < k + 1"
    using power_int_increasing [of "k + 1" "ilog2 q" "2::rat"] by (cases "ilog2 q < k + 1") auto
  show ?thesis using 1 2 by simp
qed

lemma round_half_even_near:
  assumes "\<bar>x - of_int m\<bar> < 1 / 2"
  shows "round_half_even x = m"
proof (cases "of_int m \<le> x")
  case True
  then have "\<lfloor>x\<rfloor> = m" using assms by (intro floor_unique) auto
  then show ?thesis using assms True by (simp add: round_half_even_def Let_def)
next
  case False
  then have f: "\<lfloor>x\<rfloor> = m - 1" using assms by (intro floor_unique) auto
  have "1 / 2 < x - of_int (m - 1)" using assms False by auto
  then show ?thesis using f by (simp add: round_half_even_def Let_def)
qed

lemma round_half_even_of_int: "round_half_even (of_int m) = m"
  by (rule round_half_even_near) simp

lemma round_half_even_le: "of_int (round_half_even x) \<le> x + 1 / 2"
proof -
  define f where "f = \<lfloor>x\<rfloor>"
  have b: "of_int f \<le> x" "x < of_int f + 1" unfolding f_def by linarith+
  have r: "round_half_even x =
      (if x - of_int f < 1 / 2 then f else if 1 / 2 < x - of_int f then f + 1
       else if even f then f else f + 1)"
    by (simp only: round_half_even_def Let_def f_def)
  show ?thesis
  proof (cases "x - of_int f < 1 / 2")
    case True
    then show ?thesis using b r by simp
  next
    case False
    then have "round_half_even x = f \<or> round_half_even x = f + 1" using r by presburger
    moreover have "of_int f \<le> x + 1 / 2" "of_int (f + 1) \<le> x + 1 / 2"
      using b False by auto
    ultimately show ?thesis by metis
  qed
qed

lemma round_half_even_mono: "of_int n \<le> x \<Longrightarrow> n \<le> round_half_even x"
proof -
  assume "of_int n \<le> x"
  then have "n \<le> \<lfloor>x\<rfloor>" by (simp add: le_floor_iff)
  then show ?thesis by (auto simp add: round_half_even_def Let_def)
qed


lemma round64_pos:
  assumes "0 < q" "2 powi k \<le> q" "q < 2 powi (k + 1)"
  shows "round64 q =
     (if (2::rat) ^ 1024 \<le> of_int (round_half_even (q / 2 powi (max (k - 52) (- 1074)))) * 2 powi (max (k - 52) (- 1074))
      then PInf
      else Fin (of_int (round_half_even (q / 2 powi (max (k - 52) (- 1074)))) * 2 powi (max (k - 52) (- 1074))))"
proof -
  have "ilog2 \<bar>q\<bar> = k" using assms by (simp add: ilog2_unique)
  then show ?thesis using assms(1) by (simp add: round64_def Let_def)
qed

lemma round64_near:
  assumes "0 < q" "2 powi k \<le> q" "q < 2 powi (k + 1)"
    and "\<bar>q / 2 powi (max (k - 52) (- 1074)) - of_int m\<bar> < 1 / 2"
    and "of_int m * 2 powi (max (k - 52) (- 1074)) < (2::rat) ^ 1024"
  shows "round64 q = Fin (of_int m * 2 powi (max (k - 52) (- 1074)))"
proof -
  have "round_half_even (q / 2 powi (max (k - 52) (- 1074))) = m"
    using assms(4) by (rule round_half_even_near)
  then show ?thesis using round64_pos [OF assms(1-3)] assms(5) by simp
qed

lemma round64_minus:
  "round64 (- q) = (case round64 q of Fin r \<Rightarrow> Fin (- r) | PInf \<Rightarrow> NInf | NInf \<Rightarrow> PInf | NaN \<Rightarrow> NaN)"
  by (cases "q = 0"; cases "0 < q") (simp_all add: round64_def Let_def)

lemma round64_zero: "round64 0 = Fin 0"
  by (simp add: round64_def)

lemma powi_add2: "(2::rat) powi (a + b) = 2 powi a * 2 powi b"
  by (simp add: power_int_add)

lemma round64_exact_pos:
  assumes m: "0 < m" "m < 2 ^ 53" and e: "- 1074 \<le> e" "e \<le> 971"
  shows "round64 (of_int m * 2 powi e) = Fin (of_int m * 2 powi e)"
proof -
  define q :: rat where "q = of_int m * 2 powi e"
  have q0: "0 < q" using m(1) by (simp add: q_def)
  define k where "k = ilog2 q"
  have kb: "2 powi k \<le> q" "q < 2 powi (k + 1)"
    using ilog2_bounds [OF q0] by (auto simp: k_def)
  have m53: "(of_int m :: rat) < 2 ^ 53" using m(2) by (metis of_int_less_iff of_int_numeral of_int_power)
  have "q < 2 ^ 53 * 2 powi e" unfolding q_def using m53 by (simp add: mult_strict_right_mono)
  also have "\<dots> = 2 powi (e + 53)" by (simp add: power_int_add)
  finally have "(2::rat) powi k < 2 powi (e + 53)" using kb(1) by simp
  then have ke: "k < e + 53"
    using power_int_increasing [of "e + 53" k "2::rat"] by (cases "k < e + 53") auto
  define e' where "e' = max (k - 52) (- 1074)"
  have e'e: "e' \<le> e" using ke e(1) by (simp add: e'_def)
  have "q / 2 powi e' = of_int m * 2 powi (e - e')"
    by (simp add: q_def power_int_diff)
  also have "\<dots> = of_int (m * 2 ^ nat (e - e'))" using e'e by (simp add: power_int_def)
  finally have d: "q / 2 powi e' = of_int (m * 2 ^ nat (e - e'))" .
  have "of_int (round_half_even (q / 2 powi e')) * 2 powi e' = (q / 2 powi e') * 2 powi e'"
    by (simp only: d round_half_even_of_int)
  also have "\<dots> = q" by simp
  finally have r: "of_int (round_half_even (q / 2 powi e')) * 2 powi e' = q" .
  have "(2::rat) powi e \<le> 2 powi 971" using e(2) by (intro power_int_increasing) auto
  then have "of_int m * 2 powi e \<le> of_int m * (2::rat) powi 971"
    using m(1) by (simp add: mult_left_mono)
  also have "\<dots> < 2 ^ 53 * 2 powi 971" using m53 by (simp add: mult_strict_right_mono)
  also have "\<dots> = 2 ^ 1024" by (simp flip: power_add)
  finally have small: "q < 2 ^ 1024" by (simp add: q_def)
  show ?thesis
    using round64_pos [OF q0 kb] r small unfolding e'_def [symmetric] q_def [symmetric] by simp
qed

text \<open>Every \<open>m \<cdot> 2\<^sup>e\<close> with \<open>|m| < 2\<^sup>5\<^sup>3\<close> and \<open>-1074 \<le> e \<le> 971\<close> is a binary64 value.\<close>

lemma round64_exact:
  assumes "\<bar>m\<bar> < 2 ^ 53" "- 1074 \<le> e" "e \<le> 971"
  shows "round64 (of_int m * 2 powi e) = Fin (of_int m * 2 powi e)"
proof -
  consider "m = 0" | "0 < m" | "m < 0" by linarith
  then show ?thesis
  proof cases
    case 1
    then show ?thesis by (simp add: round64_zero)
  next
    case 2
    then show ?thesis using assms by (intro round64_exact_pos) auto
  next
    case 3
    then have "round64 (of_int (- m) * 2 powi e) = Fin (of_int (- m) * 2 powi e)"
      using assms by (intro round64_exact_pos) auto
    then show ?thesis using round64_minus [of "of_int (- m) * 2 powi e"] by simp
  qed
qed

lemma round64_exact_int:
  assumes "\<bar>m\<bar> < 2 ^ 53"
  shows "round64 (of_int m) = Fin (of_int m)"
  using round64_exact [OF assms, of 0] by simp

lemma round64_finite_pos:
  assumes "0 < q" "q < 2 ^ 1023"
  shows "\<exists>r. round64 q = Fin r"
proof -
  define k where "k = ilog2 q"
  have kb: "2 powi k \<le> q" "q < 2 powi (k + 1)"
    using ilog2_bounds [OF assms(1)] by (auto simp: k_def)
  have "(2::rat) powi k < 2 powi 1023" using kb(1) assms(2) by simp
  then have k: "k < 1023"
    using power_int_increasing [of 1023 k "2::rat"] by (cases "k < 1023") auto
  define e where "e = max (k - 52) (- 1074)"
  have e: "e \<le> 970" using k by (simp add: e_def)
  have p: "(0::rat) < 2 powi e" by simp
  have "(2::rat) powi e \<le> 2 powi 970" using e by (intro power_int_increasing) auto
  then have p970: "(2::rat) powi e \<le> 2 ^ 970" by simp
  have "of_int (round_half_even (q / 2 powi e)) * 2 powi e \<le> (q / 2 powi e + 1 / 2) * 2 powi e"
    using round_half_even_le [of "q / 2 powi e"] p by (simp only: mult_le_cancel_right_pos)
  also have "\<dots> = q + 2 powi e / 2" using p by (simp add: field_simps)
  also have "\<dots> < 2 ^ 1023 + 2 ^ 970 / 2" using assms(2) p970 by linarith
  also have "\<dots> < (2::rat) ^ 1024" by simp
  finally have "\<not> (2::rat) ^ 1024 \<le> of_int (round_half_even (q / 2 powi e)) * 2 powi e" by simp
  then show ?thesis using round64_pos [OF assms(1) kb] unfolding e_def [symmetric] by simp
qed

lemma round64_finite:
  assumes "\<bar>q\<bar> < 2 ^ 1023"
  shows "\<exists>r. round64 q = Fin r"
proof -
  consider "q = 0" | "0 < q" | "q < 0" by linarith
  then show ?thesis
  proof cases
    case 1
    then show ?thesis by (simp add: round64_zero)
  next
    case 2
    then show ?thesis using assms by (intro round64_finite_pos) auto
  next
    case 3
    then have "\<exists>r. round64 (- q) = Fin r" using assms by (intro round64_finite_pos) auto
    then show ?thesis using round64_minus [of "- q"] by auto
  qed
qed

lemma round64_overflow:
  assumes "2 ^ 1024 \<le> q"
  shows "round64 q = PInf"
proof -
  have q0: "0 < q" using assms by (rule less_le_trans [rotated]) simp
  define k where "k = ilog2 q"
  have kb: "2 powi k \<le> q" "q < 2 powi (k + 1)"
    using ilog2_bounds [OF q0] by (auto simp: k_def)
  have "(2::rat) powi 1024 < 2 powi (k + 1)" using kb(2) assms by simp
  then have k: "1024 < k + 1"
    using power_int_increasing [of "k + 1" 1024 "2::rat"] by (cases "1024 < k + 1") auto
  define e where "e = max (k - 52) (- 1074)"
  have e: "e = k - 52" using k by (simp add: e_def)
  have p: "(0::rat) < 2 powi e" by simp
  have "(2::rat) powi (52 + e) = 2 powi 52 * 2 powi e" by (rule power_int_add) simp
  moreover have "52 + e = k" by (simp add: e)
  ultimately have pk: "(2::rat) powi k = 2 ^ 52 * 2 powi e" by simp
  then have "(2::rat) ^ 52 * 2 powi e \<le> q" using kb(1) by simp
  then have "(2::rat) ^ 52 \<le> q / 2 powi e" using p by (simp only: pos_le_divide_eq)
  then have "of_int (2 ^ 52) \<le> q / 2 powi e" by simp
  then have "2 ^ 52 \<le> round_half_even (q / 2 powi e)" by (rule round_half_even_mono)
  then have "(2::rat) ^ 52 \<le> of_int (round_half_even (q / 2 powi e))" by (rule pow2_le_of_int)
  then have c: "(2::rat) ^ 52 * 2 powi e \<le> of_int (round_half_even (q / 2 powi e)) * 2 powi e"
    using p by (simp only: mult_le_cancel_right_pos)
  have "(2::rat) ^ 1024 = 2 powi 1024" by simp
  also have "\<dots> \<le> 2 powi k" using k by (intro power_int_increasing) auto
  also have "\<dots> = 2 ^ 52 * 2 powi e" by (rule pk)
  also have "\<dots> \<le> of_int (round_half_even (q / 2 powi e)) * 2 powi e" by (rule c)
  finally have "(2::rat) ^ 1024 \<le> of_int (round_half_even (q / 2 powi e)) * 2 powi e" .
  then show ?thesis using round64_pos [OF q0 kb] unfolding e_def [symmetric] by simp
qed


subsection \<open>Rounding to the nearest value is monotone and close\<close>

lemma round_half_even_ge: "x - 1 / 2 \<le> of_int (round_half_even x)"
proof -
  define f where "f = \<lfloor>x\<rfloor>"
  have b: "of_int f \<le> x" "x < of_int f + 1" unfolding f_def by linarith+
  have r: "round_half_even x =
      (if x - of_int f < 1 / 2 then f else if 1 / 2 < x - of_int f then f + 1
       else if even f then f else f + 1)"
    by (simp only: round_half_even_def Let_def f_def)
  show ?thesis
  proof (cases "x - of_int f < 1 / 2")
    case True
    then show ?thesis using b r by simp
  next
    case False
    then have "round_half_even x = f \<or> round_half_even x = f + 1" using r by presburger
    moreover have "1 / 2 < x - of_int f \<Longrightarrow> round_half_even x = f + 1" using r by simp
    moreover have "x - 1 / 2 \<le> of_int (f + 1)" using b by simp
    moreover have "\<not> 1 / 2 < x - of_int f \<Longrightarrow> x - 1 / 2 \<le> of_int f" by simp
    ultimately show ?thesis by metis
  qed
qed

lemma round_half_even_error: "\<bar>of_int (round_half_even x) - x\<bar> \<le> 1 / 2"
proof (rule abs_leI)
  show "of_int (round_half_even x) - x \<le> 1 / 2" using round_half_even_le [of x] by linarith
  show "- (of_int (round_half_even x) - x) \<le> 1 / 2" using round_half_even_ge [of x] by linarith
qed

lemma powi_shift52: "(2::rat) powi (k - 52) * 2 ^ 52 = 2 powi k"
proof -
  have "(2::rat) powi (k - 52 + 52) = 2 powi (k - 52) * 2 powi 52" by (rule powi_add2)
  then show ?thesis by simp
qed

lemma round_half_even_monotone:
  assumes "x \<le> y"
  shows "round_half_even x \<le> round_half_even y"
proof (rule ccontr)
  assume "\<not> round_half_even x \<le> round_half_even y"
  then have "round_half_even y + 1 \<le> round_half_even x" by simp
  then have "(of_int (round_half_even y) :: rat) + 1 \<le> of_int (round_half_even x)"
    by (metis of_int_1 of_int_add of_int_le_iff)
  then have "y + 1 / 2 \<le> x + 1 / 2"
    using round_half_even_ge [of y] round_half_even_le [of x] by linarith
  then have xy: "x = y" using assms by simp
  show False using \<open>\<not> round_half_even x \<le> round_half_even y\<close> by (simp add: xy)
qed

lemma round_half_even_le_int: "x \<le> of_int n \<Longrightarrow> round_half_even x \<le> n"
  using round_half_even_monotone [of x "of_int n"] by (simp add: round_half_even_of_int)

lemma round_half_even_nonneg: "0 \<le> x \<Longrightarrow> 0 \<le> round_half_even x"
  using round_half_even_mono [of 0 x] by simp

lemma nearest_zero [simp]: "nearest 0 = 0"
  by (simp add: nearest_def)

lemma nearest_minus: "nearest (- q) = - nearest q"
  by (cases "q = 0"; cases "0 < q") (simp_all add: nearest_def Let_def)

lemma nearest_pos:
  assumes "0 < q"
  shows "nearest q = of_int (round_half_even (q / 2 powi (max (ilog2 q - 52) (- 1074))))
                       * 2 powi (max (ilog2 q - 52) (- 1074))"
  using assms by (simp add: nearest_def Let_def)

lemma nearest_nonneg: "0 \<le> q \<Longrightarrow> 0 \<le> nearest q"
proof (cases "q = 0")
  case False
  assume "0 \<le> q"
  then have q: "0 < q" using False by simp
  have "0 \<le> q / 2 powi (max (ilog2 q - 52) (- 1074))" using q by simp
  then have "0 \<le> round_half_even (q / 2 powi (max (ilog2 q - 52) (- 1074)))"
    by (rule round_half_even_nonneg)
  then show ?thesis by (simp add: nearest_pos [OF q])
qed simp

lemma round64_nearest:
  "round64 q = (if 2 ^ 1024 \<le> \<bar>nearest q\<bar> then (if 0 < q then PInf else NInf)
                else Fin (nearest q))"
proof (cases "q = 0")
  case True
  then show ?thesis by (simp add: round64_zero)
next
  case False
  define e where "e = max (ilog2 \<bar>q\<bar> - 52) (- 1074)"
  define r :: rat where "r = of_int (round_half_even (\<bar>q\<bar> / 2 powi e)) * 2 powi e"
  have "0 \<le> \<bar>q\<bar> / 2 powi e" by simp
  then have "0 \<le> round_half_even (\<bar>q\<bar> / 2 powi e)" by (rule round_half_even_nonneg)
  then have r0: "0 \<le> r" by (simp add: r_def)
  have n: "nearest q = (if 0 < q then r else - r)"
    using False by (simp add: nearest_def Let_def e_def r_def)
  have a: "\<bar>nearest q\<bar> = r" using r0 n by simp
  have "round64 q = (if 2 ^ 1024 \<le> r then (if 0 < q then PInf else NInf)
                     else Fin (if 0 < q then r else - r))"
    using False by (simp add: round64_def Let_def e_def r_def)
  then show ?thesis unfolding a by (simp add: n)
qed

lemma round64_Fin_nearest: "round64 q = Fin r \<Longrightarrow> r = nearest q \<and> \<bar>nearest q\<bar> < 2 ^ 1024"
  by (auto simp add: round64_nearest split: if_splits)

lemma nearest_round64: "\<bar>nearest q\<bar> < 2 ^ 1024 \<Longrightarrow> round64 q = Fin (nearest q)"
  by (simp add: round64_nearest)

lemma exact64_nearest: "exact64 q \<Longrightarrow> nearest q = q"
  unfolding exact64_def using round64_Fin_nearest by auto

lemma ilog2_monotone:
  assumes "0 < q" "q \<le> q'"
  shows "ilog2 q \<le> ilog2 q'"
proof -
  have q': "0 < q'" using assms by simp
  have "(2::rat) powi (ilog2 q) \<le> q" using ilog2_bounds [OF assms(1)] by simp
  also have "\<dots> \<le> q'" by (rule assms(2))
  also have "\<dots> < 2 powi (ilog2 q' + 1)" using ilog2_bounds [OF q'] by simp
  finally have "(2::rat) powi (ilog2 q) < 2 powi (ilog2 q' + 1)" .
  then have "ilog2 q < ilog2 q' + 1"
    using power_int_increasing [of "ilog2 q' + 1" "ilog2 q" "2::rat"]
    by (cases "ilog2 q < ilog2 q' + 1") auto
  then show ?thesis by simp
qed

lemma powi_int: "0 \<le> k \<Longrightarrow> (2::rat) powi k = of_int (2 ^ nat k)"
  by (simp add: power_int_def)

lemma nearest_monotone_pos:
  assumes "0 < q" "q \<le> q'"
  shows "nearest q \<le> nearest q'"
proof -
  have q': "0 < q'" using assms by simp
  define k where "k = ilog2 q"
  define k' where "k' = ilog2 q'"
  define e where "e = max (k - 52) (- 1074)"
  define e' where "e' = max (k' - 52) (- 1074)"
  have kk: "k \<le> k'" unfolding k_def k'_def using assms by (rule ilog2_monotone)
  have n: "nearest q = of_int (round_half_even (q / 2 powi e)) * 2 powi e"
    unfolding e_def k_def by (rule nearest_pos [OF assms(1)])
  have n': "nearest q' = of_int (round_half_even (q' / 2 powi e')) * 2 powi e'"
    unfolding e'_def k'_def by (rule nearest_pos [OF q'])
  have ee: "e \<le> e'" using kk by (simp add: e_def e'_def)
  show ?thesis
  proof (cases "e = e'")
    case True
    have "q / 2 powi e \<le> q' / 2 powi e" using assms(2) by (simp add: divide_right_mono)
    then have "round_half_even (q / 2 powi e) \<le> round_half_even (q' / 2 powi e)"
      by (rule round_half_even_monotone)
    then have "(of_int (round_half_even (q / 2 powi e)) :: rat)
                 \<le> of_int (round_half_even (q' / 2 powi e))" by simp
    then show ?thesis unfolding n n' True [symmetric]
      by (simp add: mult_right_mono)
  next
    case False
    then have lt: "e < e'" using ee by simp
    then have e'k: "e' = k' - 52" by (auto simp add: e_def e'_def)
    have ke: "k - 52 \<le> e" by (simp add: e_def)
    have k1: "k + 1 \<le> k'" using lt e'k ke by linarith
    have d: "0 \<le> k' - e" using lt e'k by linarith
    have "q < 2 powi (k + 1)" unfolding k_def using ilog2_bounds [OF assms(1)] by simp
    also have "\<dots> \<le> 2 powi k'" using k1 by (intro power_int_increasing) auto
    finally have "q / 2 powi e \<le> 2 powi k' / 2 powi e" by (simp add: divide_right_mono)
    also have "\<dots> = 2 powi (k' - e)" by (simp add: power_int_diff)
    also have "\<dots> = of_int (2 ^ nat (k' - e))" using d by (rule powi_int)
    finally have "round_half_even (q / 2 powi e) \<le> 2 ^ nat (k' - e)"
      by (rule round_half_even_le_int)
    then have "(of_int (round_half_even (q / 2 powi e)) :: rat) \<le> of_int (2 ^ nat (k' - e))"
      by (simp only: of_int_le_iff)
    also have "\<dots> = 2 powi (k' - e)" using d by (simp add: powi_int)
    finally have "nearest q \<le> 2 powi (k' - e) * 2 powi e"
      unfolding n by (simp add: mult_right_mono)
    also have "\<dots> = 2 powi k'" by (simp flip: power_int_add)
    finally have up: "nearest q \<le> 2 powi k'" .
    have "(2::rat) powi k' \<le> q'" unfolding k'_def using ilog2_bounds [OF q'] by simp
    then have "(2::rat) powi k' / 2 powi e' \<le> q' / 2 powi e'" by (simp add: divide_right_mono)
    moreover have "(2::rat) powi k' / 2 powi e' = of_int (2 ^ 52)"
      using powi_shift52 [of k'] by (simp add: e'k field_simps)
    ultimately have "of_int (2 ^ 52) \<le> q' / 2 powi e'" by simp
    then have "2 ^ 52 \<le> round_half_even (q' / 2 powi e')" by (rule round_half_even_mono)
    then have "(of_int (2 ^ 52) :: rat) \<le> of_int (round_half_even (q' / 2 powi e'))"
      by (simp only: of_int_le_iff)
    then have "of_int (2 ^ 52) * 2 powi e' \<le> nearest q'"
      unfolding n' by (simp add: mult_right_mono)
    moreover have "of_int (2 ^ 52) * (2::rat) powi e' = 2 powi k'"
      using powi_shift52 [of k'] by (simp add: e'k field_simps)
    ultimately have "2 powi k' \<le> nearest q'" by simp
    then show ?thesis using up by simp
  qed
qed

lemma nearest_monotone:
  assumes "q \<le> q'"
  shows "nearest q \<le> nearest q'"
proof -
  consider "0 < q" | "q \<le> 0" "0 \<le> q'" | "q' < 0" by linarith
  then show ?thesis
  proof cases
    case 1
    then show ?thesis using assms by (rule nearest_monotone_pos)
  next
    case 2
    have "nearest q \<le> 0" using nearest_nonneg [of "- q"] 2(1) by (simp add: nearest_minus)
    moreover have "0 \<le> nearest q'" using 2(2) by (rule nearest_nonneg)
    ultimately show ?thesis by simp
  next
    case 3
    then have "nearest (- q') \<le> nearest (- q)" using assms by (intro nearest_monotone_pos) auto
    then show ?thesis by (simp add: nearest_minus)
  qed
qed

lemma nearest_error_pos:
  assumes "0 < q"
  shows "\<bar>nearest q - q\<bar> \<le> q / 2 ^ 53 + 1 / 2 ^ 1075"
proof -
  define k where "k = ilog2 q"
  define e where "e = max (k - 52) (- 1074)"
  define m where "m = round_half_even (q / 2 powi e)"
  have n: "nearest q = of_int m * 2 powi e"
    unfolding m_def e_def k_def by (rule nearest_pos [OF assms])
  have p: "(0::rat) < 2 powi e" by simp
  have "nearest q - q = (of_int m - q / 2 powi e) * 2 powi e"
    using p by (simp add: n field_simps)
  then have "\<bar>nearest q - q\<bar> = \<bar>of_int m - q / 2 powi e\<bar> * 2 powi e"
    by (simp add: abs_mult)
  also have "\<dots> \<le> 1 / 2 * 2 powi e"
    unfolding m_def using round_half_even_error [of "q / 2 powi e"] p
    by (simp only: mult_le_cancel_right_pos)
  finally have err: "\<bar>nearest q - q\<bar> \<le> 2 powi e / 2" by simp
  have "2 powi e / 2 \<le> q / 2 ^ 53 + 1 / 2 ^ 1075"
  proof (cases "k - 52 \<le> - 1074")
    case True
    then have "e = - 1074" by (simp add: e_def)
    then have "(2::rat) powi e / 2 = 1 / 2 ^ 1075" by (simp add: power_int_minus)
    then show ?thesis using assms by simp
  next
    case False
    then have ek: "e = k - 52" by (simp add: e_def)
    have "(2::rat) powi k \<le> q" unfolding k_def using ilog2_bounds [OF assms] by simp
    moreover have "(2::rat) powi k = 2 powi e * 2 ^ 52" using powi_shift52 [of k] by (simp add: ek)
    ultimately have "2 powi e * 2 ^ 52 \<le> q" by simp
    then have "2 powi e / 2 \<le> q / 2 ^ 53" by (simp add: field_simps)
    then show ?thesis by simp
  qed
  then show ?thesis using err by simp
qed

lemma nearest_error: "\<bar>nearest q - q\<bar> \<le> \<bar>q\<bar> / 2 ^ 53 + 1 / 2 ^ 1075"
proof -
  consider "q = 0" | "0 < q" | "q < 0" by linarith
  then show ?thesis
  proof cases
    case 1
    then show ?thesis by simp
  next
    case 2
    then show ?thesis using nearest_error_pos [of q] by simp
  next
    case 3
    then have "\<bar>nearest (- q) - (- q)\<bar> \<le> (- q) / 2 ^ 53 + 1 / 2 ^ 1075"
      by (intro nearest_error_pos) simp
    moreover have "\<bar>nearest (- q) - (- q)\<bar> = \<bar>nearest q - q\<bar>"
      by (simp add: nearest_minus)
    ultimately show ?thesis using 3 by simp
  qed
qed


lemma nearest_bounded:
  assumes "\<bar>q\<bar> \<le> b" "nearest b = b"
  shows "\<bar>nearest q\<bar> \<le> b"
proof (rule abs_leI)
  have "q \<le> b" using assms(1) by simp
  then show "nearest q \<le> b" using nearest_monotone [of q b] assms(2) by simp
  have "- b \<le> q" using assms(1) by simp
  then have "nearest (- b) \<le> nearest q" by (rule nearest_monotone)
  then show "- nearest q \<le> b" using assms(2) by (simp add: nearest_minus)
qed

lemma nearest_between:
  assumes "a \<le> q" "q \<le> b" "\<bar>nearest a\<bar> < 2 ^ 1024" "\<bar>nearest b\<bar> < 2 ^ 1024"
  shows "\<bar>nearest q\<bar> < 2 ^ 1024"
proof -
  have "nearest a \<le> nearest q" "nearest q \<le> nearest b"
    using assms(1,2) by (simp_all add: nearest_monotone)
  then show ?thesis using assms(3,4) by (simp add: abs_less_iff)
qed

subsection \<open>The grid of the binary64 values\<close>

lemma on_grid_int: "on_grid (of_int i)"
proof -
  have "(of_int i :: rat) = of_int (i * 2 ^ 1074) / 2 ^ 1074" by simp
  then show ?thesis unfolding on_grid_def by blast
qed

lemma on_grid_add: "on_grid a \<Longrightarrow> on_grid b \<Longrightarrow> on_grid (a + b)"
proof -
  assume "on_grid a" "on_grid b"
  then obtain n m :: int where "a = of_int n / 2 ^ 1074" "b = of_int m / 2 ^ 1074"
    unfolding on_grid_def by blast
  then have "a + b = of_int (n + m) / 2 ^ 1074" by (simp add: add_divide_distrib)
  then show ?thesis unfolding on_grid_def by blast
qed

lemma on_grid_minus: "on_grid a \<Longrightarrow> on_grid (- a)"
proof -
  assume "on_grid a"
  then obtain n :: int where "a = of_int n / 2 ^ 1074" unfolding on_grid_def by blast
  then have "- a = of_int (- n) / 2 ^ 1074" by simp
  then show ?thesis unfolding on_grid_def by blast
qed

lemma on_grid_diff: "on_grid a \<Longrightarrow> on_grid b \<Longrightarrow> on_grid (a - b)"
  using on_grid_add [of a "- b"] on_grid_minus [of b] by simp

lemma on_grid_scaled:
  assumes "- 1074 \<le> e"
  shows "on_grid (of_int m * 2 powi e)"
proof -
  have "(2::rat) powi (e + 1074) = 2 powi e * 2 powi 1074" by (rule powi_add2)
  then have "(2::rat) powi e = 2 powi (e + 1074) / 2 ^ 1074" by simp
  also have "\<dots> = of_int (2 ^ nat (e + 1074)) / 2 ^ 1074"
    using assms by (simp add: powi_int)
  finally have "of_int m * (2::rat) powi e = of_int (m * 2 ^ nat (e + 1074)) / 2 ^ 1074"
    by simp
  then show ?thesis unfolding on_grid_def by blast
qed

lemma nearest_on_grid: "on_grid (nearest q)"
proof -
  have pos: "on_grid (nearest q)" if "0 < q" for q
    unfolding nearest_pos [OF that] by (rule on_grid_scaled) simp
  consider "q = 0" | "0 < q" | "q < 0" by linarith
  then show ?thesis
  proof cases
    case 1
    then show ?thesis using on_grid_int [of 0] by simp
  next
    case 2
    then show ?thesis by (rule pos)
  next
    case 3
    then have "on_grid (nearest (- q))" by (intro pos) simp
    then show ?thesis using on_grid_minus [of "nearest (- q)"] by (simp add: nearest_minus)
  qed
qed

lemma exact64_on_grid: "exact64 q \<Longrightarrow> on_grid q"
  using nearest_on_grid [of q] exact64_nearest [of q] by simp

lemma nearest_subnormal:
  assumes "0 < q" "ilog2 q - 52 \<le> - 1074" "on_grid q"
  shows "nearest q = q"
proof -
  obtain n :: int where n: "q = of_int n / 2 ^ 1074" using assms(3) unfolding on_grid_def by blast
  have e: "max (ilog2 q - 52) (- 1074) = - 1074" using assms(2) by simp
  have p: "(2::rat) powi (- 1074) = 1 / 2 ^ 1074" by (simp add: power_int_minus)
  have "q / 2 powi (- 1074) = of_int n" by (simp add: n p)
  then have "round_half_even (q / 2 powi (- 1074)) = n" by (simp add: round_half_even_of_int)
  then show ?thesis unfolding nearest_pos [OF assms(1)] e by (simp add: n p)
qed

lemma nearest_normal:
  assumes "0 < q" "- 1074 < ilog2 q - 52"
  shows "\<exists>m. nearest q = of_int m * 2 powi (ilog2 q - 52)
            \<and> m = round_half_even (q / 2 powi (ilog2 q - 52)) \<and> 2 ^ 52 \<le> m \<and> m \<le> 2 ^ 53"
proof -
  define k where "k = ilog2 q"
  define e where "e = k - 52"
  define m where "m = round_half_even (q / 2 powi e)"
  have em: "max (ilog2 q - 52) (- 1074) = e" using assms(2) by (simp add: e_def k_def)
  have n: "nearest q = of_int m * 2 powi e"
    unfolding nearest_pos [OF assms(1)] em m_def by simp
  have kb: "2 powi k \<le> q" "q < 2 powi (k + 1)"
    using ilog2_bounds [OF assms(1)] by (auto simp: k_def)
  have pk: "(2::rat) powi k = 2 powi e * 2 ^ 52" using powi_shift52 [of k] by (simp add: e_def)
  have "(2::rat) powi (k + 1) = 2 powi k * 2 powi 1" by (rule powi_add2)
  then have pk1: "(2::rat) powi (k + 1) = 2 powi e * 2 ^ 53" by (simp add: pk)
  have "of_int (2 ^ 52) \<le> q / 2 powi e" using kb(1) pk by (simp add: field_simps)
  then have lo: "2 ^ 52 \<le> m" unfolding m_def by (rule round_half_even_mono)
  have "q / 2 powi e \<le> of_int (2 ^ 53)" using kb(2) pk1 by (simp add: field_simps)
  then have hi: "m \<le> 2 ^ 53" unfolding m_def by (rule round_half_even_le_int)
  show ?thesis using n lo hi unfolding m_def e_def k_def by blast
qed

lemma nearest_half_pos:
  assumes "0 < a" "on_grid a" "nearest a < 2 ^ 1024"
  shows "nearest (nearest a / 2) = nearest (a / 2)"
proof (cases "ilog2 a - 52 \<le> - 1074")
  case True
  then have "nearest a = a" using assms(1,2) by (intro nearest_subnormal)
  then show ?thesis by simp
next
  case False
  define k where "k = ilog2 a"
  define e where "e = k - 52"
  have ke: "- 1074 < ilog2 a - 52" using False by simp
  obtain m where m: "nearest a = of_int m * 2 powi e"
      "m = round_half_even (a / 2 powi e)" "2 ^ 52 \<le> m" "m \<le> 2 ^ 53"
    using nearest_normal [OF assms(1) ke] unfolding e_def k_def by blast
  have e1: "- 1074 \<le> e - 1" using False by (simp add: e_def k_def)
  have pe: "(2::rat) powi e = 2 powi (e - 1) * 2"
    using powi_add2 [of "e - 1" 1] by simp
  have half: "nearest a / 2 = of_int m * 2 powi (e - 1)" by (simp add: m(1) pe)
  \<comment> \<open>the exponent is at most 971\<close>
  have "(of_int (2 ^ 52) :: rat) \<le> of_int m" using m(3) by (simp only: of_int_le_iff)
  then have "of_int (2 ^ 52) * 2 powi e \<le> of_int m * (2::rat) powi e"
    by (intro mult_right_mono) simp_all
  then have "of_int (2 ^ 52) * 2 powi e \<le> nearest a" by (simp only: m(1))
  then have "of_int (2 ^ 52) * (2::rat) powi e < 2 ^ 1024" using assms(3) by (rule le_less_trans)
  moreover have "of_int (2 ^ 52) * (2::rat) powi e = 2 powi (e + 52)"
    using powi_add2 [of e 52] by simp
  moreover have "(2::rat) ^ 1024 = 2 powi 1024" by simp
  ultimately have "(2::rat) powi (e + 52) < 2 powi 1024" by (simp only:)
  then have "e + 52 < 1024"
    using power_int_increasing [of 1024 "e + 52" "2::rat"] by (cases "e + 52 < 1024") auto
  then have e2: "e \<le> 971" by simp
  \<comment> \<open>half of the rounded value is a binary64 value\<close>
  have ex: "round64 (of_int m * 2 powi (e - 1)) = Fin (of_int m * 2 powi (e - 1))"
  proof (cases "m = 2 ^ 53")
    case True
    have "of_int m * (2::rat) powi (e - 1) = of_int (2 ^ 52) * 2 powi e"
      by (simp add: True pe)
    moreover have "round64 (of_int (2 ^ 52) * 2 powi e) = Fin (of_int (2 ^ 52) * 2 powi e)"
      using e1 e2 by (intro round64_exact_pos) auto
    ultimately show ?thesis by simp
  next
    case False
    then have "m < 2 ^ 53" using m(4) by simp
    moreover have "0 < m" using m(3) by (rule less_le_trans [rotated]) simp
    ultimately show ?thesis using e1 e2 by (intro round64_exact_pos) auto
  qed
  have l: "nearest (nearest a / 2) = nearest a / 2"
    using round64_Fin_nearest [OF ex] by (simp add: half)
  \<comment> \<open>rounding the half gives the same significand\<close>
  have kb: "2 powi k \<le> a" "a < 2 powi (k + 1)"
    using ilog2_bounds [OF assms(1)] by (auto simp: k_def)
  have "(2::rat) powi k = 2 powi (k - 1) * 2" using powi_add2 [of "k - 1" 1] by simp
  then have h1: "2 powi (k - 1) \<le> a / 2" using kb(1) by simp
  have "(2::rat) powi (k + 1) = 2 powi k * 2" using powi_add2 [of k 1] by simp
  then have "a / 2 < 2 powi k" using kb(2) by simp
  then have h2: "a / 2 < 2 powi (k - 1 + 1)" by simp
  have a2: "0 < a / 2" using assms(1) by simp
  have ik: "ilog2 (a / 2) = k - 1" using a2 h1 h2 by (rule ilog2_unique)
  have em: "max (ilog2 (a / 2) - 52) (- 1074) = e - 1" using e1 by (simp add: ik e_def)
  have q: "a / 2 / 2 powi (e - 1) = a / 2 powi e" by (simp add: pe)
  have "nearest (a / 2) = of_int m * 2 powi (e - 1)"
    unfolding nearest_pos [OF a2] em q m(2) ..
  then show ?thesis using l half by simp
qed

lemma nearest_half:
  assumes "on_grid a" "\<bar>nearest a\<bar> < 2 ^ 1024"
  shows "nearest (nearest a / 2) = nearest (a / 2)"
proof -
  consider "a = 0" | "0 < a" | "a < 0" by linarith
  then show ?thesis
  proof cases
    case 1
    then show ?thesis by simp
  next
    case 2
    then show ?thesis using assms by (intro nearest_half_pos) auto
  next
    case 3
    have "nearest (nearest (- a) / 2) = nearest (- a / 2)"
      using 3 assms on_grid_minus [of a] nearest_minus [of a]
      by (intro nearest_half_pos) auto
    then have "nearest (- (nearest a / 2)) = nearest (- (a / 2))"
      by (simp add: nearest_minus)
    then show ?thesis by (simp only: nearest_minus neg_equal_iff_equal)
  qed
qed

subsection \<open>Rounding of numerals\<close>

lemma round64_numeral [simp]:
  "numeral n < (2::int) ^ 53 \<Longrightarrow> round64 (numeral n) = Fin (numeral n)"
  using round64_exact_int [of "numeral n"] by simp

lemma round64_neg_numeral [simp]:
  "numeral n < (2::int) ^ 53 \<Longrightarrow> round64 (- numeral n) = Fin (- numeral n)"
  using round64_exact_int [of "- numeral n"] by simp

lemma round64_one [simp]: "round64 1 = Fin 1"
  using round64_exact_int [of 1] by simp

lemma round64_half [simp]:
  "numeral n < (2::int) ^ 53 \<Longrightarrow> round64 (numeral n / 2) = Fin (numeral n / 2)"
  using round64_exact [of "numeral n" "- 1"] by simp

lemma round64_neg_half [simp]:
  "numeral n < (2::int) ^ 53 \<Longrightarrow> round64 (- (numeral n / 2)) = Fin (- (numeral n / 2))"
  using round64_exact [of "- numeral n" "- 1"] by simp

lemma round64_one_half [simp]: "round64 (1 / 2) = Fin (1 / 2)"
  using round64_exact [of 1 "- 1"] by simp

lemma round64_neg_one_half [simp]: "round64 (- (1 / 2)) = Fin (- (1 / 2))"
  using round64_exact [of "- 1" "- 1"] by simp

lemma huge_sum: "round64 (3 * 2 ^ 1022 + 2 ^ 1023) = PInf"
  by (rule round64_overflow) simp

lemma huge_difference: "round64 (3 * 2 ^ 1022 - 2 ^ 1023) = Fin (2 ^ 1022)"
  using round64_exact [of "2 ^ 51" 971] by simp

lemma huge_scale: "round64 (950 / 2 ^ 1022) = Fin (950 / 2 ^ 1022)"
  using round64_exact [of 475 "- 1021"] by (simp add: power_int_minus field_simps)




lemma round_half_even_tie: "round_half_even (9007199254740993 / 2) = 4503599627370496"
proof -
  have f: "\<lfloor>(9007199254740993::rat) / 2\<rfloor> = 4503599627370496"
    by (rule floor_unique) simp_all
  show ?thesis unfolding round_half_even_def Let_def f by simp
qed



lemma round64_2_53_2: "round64 9007199254740994 = Fin 9007199254740994"
  using round64_exact [of "2 ^ 52 + 1" 1] by simp

text \<open>The definitions unfolded when a run is evaluated.\<close>

lemmas run_defs =
  main_def bounding_box_def extend_box_def py_min_def py_max_def xy_def
  build_transform_def shift_def scale_def MAP_SIZE_def MARGIN_def float_op_def
  emit_def emit_polygon_def transform_xy_def transform_coord_def round64_zero

section \<open>Evaluating the features loop\<close>

lemma vertex_pair [simp]: "vertex (Arr (x # y # zs)) = Inr (x, y)"
  by (simp add: vertex_def)

lemma num_eq_int [simp]: "num_eq (PInt a) (PInt b) = (a = b)"
  by (simp add: num_eq_def)

lemma num_lt_int [simp]: "num_lt (PInt a) (PInt b) = (a < b)"
  by (simp add: num_lt_def)

lemma parse_point_feature:
  "parse_feature (pts, pgs) (point_feature nm (Arr [x, y])) = Inr (pts @ [(x, y, nm)], pgs)"
  by (simp add: parse_feature_def parse_point_def point_feature_def)

lemma parse_triangle:
  "parse_feature (pts, pgs) (polygon_feature triangle) =
     Inr (pts, pgs @ [[(Num (PInt 0), Num (PInt 0)), (Num (PInt 20), Num (PInt 0)),
                       (Num (PInt 20), Num (PInt 20))]])"
  by (simp add: parse_feature_def parse_polygon_def polygon_feature_def triangle_def int_pair_def)

lemma parse_features_append:
  "parse_features acc (xs @ ys) =
     (case parse_features acc xs of Inl e \<Rightarrow> Inl e | Inr acc' \<Rightarrow> parse_features acc' ys)"
  by (induction xs arbitrary: acc) (auto split: sum.splits)

lemma vertex_first_two: "two_or_more v \<Longrightarrow> vertex v = Inr (first_two v)"
  by (cases v rule: two_or_more.cases) (simp_all add: vertex_def)

lemma vertices_first_two:
  "\<forall>v \<in> set vs. two_or_more v \<Longrightarrow> vertices vs = Inr (map first_two vs)"
  by (induction vs) (simp_all add: vertex_first_two)

lemma parse_polygon_accept:
  assumes "4 \<le> length ring" "py_eq (hd ring) (last ring)" "\<forall>v \<in> set (butlast ring). two_or_more v"
  shows "parse_polygon (Arr [Arr ring]) = Inr (map first_two (butlast ring))"
  using assms by (simp add: parse_polygon_def vertices_first_two)

lemma parse_polygon_feature:
  assumes "4 \<le> length ring" "py_eq (hd ring) (last ring)" "\<forall>v \<in> set (butlast ring). two_or_more v"
  shows "parse_feature (pts, pgs) (polygon_feature ring)
           = Inr (pts, pgs @ [map first_two (butlast ring)])"
  using assms by (simp add: parse_feature_def polygon_feature_def parse_polygon_accept)

lemma parse_scenario:
  "parse_features ([], []) scenario =
     Inr ([(Num (PInt 10), Num (PInt 10), ''A'')],
          [[(Num (PInt 0), Num (PInt 0)), (Num (PInt 20), Num (PInt 0)),
            (Num (PInt 20), Num (PInt 20))]])"
  by (simp add: scenario_def parse_triangle parse_point_feature int_pair_def)

lemma bbox_scenario:
  "bounding_box [(Num (PInt 10), Num (PInt 10), ''A'')]
          [[(Num (PInt 0), Num (PInt 0)), (Num (PInt 20), Num (PInt 0)),
            (Num (PInt 20), Num (PInt 20))]]
   = Inr \<lparr>x_min = Num (PInt 0), x_max = Num (PInt 20), y_min = Num (PInt 0), y_max = Num (PInt 20)\<rparr>"
  by (simp add: run_defs)

lemma transform_scenario:
  "build_transform \<lparr>x_min = Num (PInt 0), x_max = Num (PInt 20), y_min = Num (PInt 0), y_max = Num (PInt 20)\<rparr>
   = Inr \<lparr>x_shift = Num (PFloat (Fin 10)), x_scale = Num (PFloat (Fin (95 / 2))),
          y_shift = Num (PFloat (Fin 10)), y_scale = Num (PFloat (Fin (95 / 2)))\<rparr>"
  by (simp add: run_defs)

lemma emit_vertices_lines:
  "snd (emit_vertices t vs) = None \<Longrightarrow>
     list_all2 (\<lambda>p l. \<exists>x y. l = VertexLine x y \<and> transform_xy t p = Inr (x, y))
       vs (fst (emit_vertices t vs))"
  by (induction vs) (auto split: sum.splits)

lemma emit_points_lines: "\<forall>l \<in> set (fst (emit_points t ps)). is_point_line l"
  by (induction ps) (auto split: sum.splits)

lemma emit_vertices_no_point: "\<forall>l \<in> set (fst (emit_vertices t vs)). \<not> is_point_line l"
  by (induction vs) (auto split: sum.splits)

lemma emit_polygon_no_point: "\<forall>l \<in> set (fst (emit_polygon t vs)). \<not> is_point_line l"
  using emit_vertices_no_point [of t vs] by (auto simp add: emit_polygon_def split: option.splits)

lemma emit_polygons_no_point: "\<forall>l \<in> set (fst (emit_polygons t pgs)). \<not> is_point_line l"
  using emit_polygon_no_point by (induction pgs) (auto split: option.splits)

lemma emit_split:
  "\<exists>ps qs. fst (emit t points polygons) = ps @ qs
      \<and> (\<forall>l \<in> set ps. is_point_line l) \<and> (\<forall>l \<in> set qs. \<not> is_point_line l)"
proof (cases "snd (emit_points t points)")
  case None
  then have "fst (emit t points polygons) = fst (emit_points t points) @ fst (emit_polygons t polygons)"
    by (simp add: emit_def)
  then show ?thesis using emit_points_lines emit_polygons_no_point by blast
next
  case (Some e)
  then have "fst (emit t points polygons) = fst (emit_points t points) @ []"
    by (simp add: emit_def)
  then show ?thesis using emit_points_lines by (metis empty_iff list.set(1))
qed

subsection \<open>The rings and the blocks of a completed run\<close>

lemma vertices_all2:
  "vertices xs = Inr ys \<Longrightarrow> list_all2 (\<lambda>v p. vertex v = Inr p) xs ys"
  by (induction xs arbitrary: ys) (auto split: sum.splits)

lemma parse_polygon_ring:
  assumes "parse_polygon cs = Inr vs"
  shows "\<exists>ring. cs = Arr [Arr ring] \<and> 4 \<le> length ring \<and> vertices (butlast ring) = Inr vs"
proof -
  obtain xs where xs: "cs = Arr xs" using assms by (cases cs) (simp_all add: parse_polygon_def)
  have l: "length xs = 1" using assms by (simp add: parse_polygon_def xs split: if_splits)
  then obtain r where r: "xs = [r]" by (cases xs) auto
  obtain ring where ring: "r = Arr ring"
    using assms by (cases r) (simp_all add: parse_polygon_def xs r)
  have "4 \<le> length ring \<and> vertices (butlast ring) = Inr vs"
    using assms by (simp add: parse_polygon_def xs r ring split: if_splits)
  then show ?thesis using xs r ring by simp
qed

lemma parse_feature_rings:
  assumes "parse_feature acc f = Inr acc'"
  shows "\<exists>pgs. snd acc' = snd acc @ pgs
           \<and> list_all2 (\<lambda>ring vs. 4 \<le> length ring \<and> vertices (butlast ring) = Inr vs)
                (polygon_rings [f]) pgs"
proof -
  obtain cs where cs: "coordinates (geometry f) = Some cs"
    using assms by (cases "coordinates (geometry f)") (simp_all add: parse_feature_def)
  show ?thesis
  proof (cases "geometry_type (geometry f) = ''Point''")
    case True
    then have "snd acc' = snd acc" using assms cs
      by (auto simp add: parse_feature_def split: sum.splits)
    moreover have "polygon_rings [f] = []" using True
      by (simp add: polygon_rings_def)
    ultimately show ?thesis by simp
  next
    case False
    then have p: "geometry_type (geometry f) = ''Polygon''"
      using assms cs by (simp add: parse_feature_def split: if_splits)
    then obtain vs where vs: "parse_polygon cs = Inr vs" "snd acc' = snd acc @ [vs]"
      using assms cs False by (auto simp add: parse_feature_def split: sum.splits)
    obtain ring where ring: "cs = Arr [Arr ring]" "4 \<le> length ring"
        "vertices (butlast ring) = Inr vs"
      using parse_polygon_ring [OF vs(1)] by blast
    have "polygon_rings [f] = [ring]"
      using p cs ring(1) by (simp add: polygon_rings_def)
    then show ?thesis using vs(2) ring(2,3) by simp
  qed
qed

lemma polygon_rings_Cons: "polygon_rings (f # fs) = polygon_rings [f] @ polygon_rings fs"
  by (simp add: polygon_rings_def)

lemma parse_features_rings:
  assumes "parse_features acc fs = Inr acc'"
  shows "\<exists>pgs. snd acc' = snd acc @ pgs
           \<and> list_all2 (\<lambda>ring vs. 4 \<le> length ring \<and> vertices (butlast ring) = Inr vs)
                (polygon_rings fs) pgs"
  using assms
proof (induction fs arbitrary: acc)
  case Nil
  then show ?case by (simp add: polygon_rings_def)
next
  case (Cons f fs)
  obtain acc1 where a: "parse_feature acc f = Inr acc1" "parse_features acc1 fs = Inr acc'"
    using Cons.prems by (auto split: sum.splits)
  obtain p1 where p1: "snd acc1 = snd acc @ p1"
      "list_all2 (\<lambda>ring vs. 4 \<le> length ring \<and> vertices (butlast ring) = Inr vs)
                (polygon_rings [f]) p1"
    using parse_feature_rings [OF a(1)] by blast
  obtain p2 where p2: "snd acc' = snd acc1 @ p2"
      "list_all2 (\<lambda>ring vs. 4 \<le> length ring \<and> vertices (butlast ring) = Inr vs)
                (polygon_rings fs) p2"
    using Cons.IH [OF a(2)] by blast
  have "list_all2 (\<lambda>ring vs. 4 \<le> length ring \<and> vertices (butlast ring) = Inr vs)
                (polygon_rings [f] @ polygon_rings fs) (p1 @ p2)"
    using p1(2) p2(2) by (rule list_all2_appendI)
  then show ?case using p1(1) p2(1) polygon_rings_Cons [of f fs] by auto
qed

lemma emit_polygons_blocks:
  assumes "snd (emit_polygons t pgs) = None"
  shows "\<exists>blocks. fst (emit_polygons t pgs) = concat blocks
           \<and> list_all2 (\<lambda>vs blk. snd (emit_vertices t vs) = None
                \<and> blk = PolygonOpen # fst (emit_vertices t vs) @ [PolygonClose]) pgs blocks"
  using assms
proof (induction pgs)
  case Nil
  then show ?case by simp
next
  case (Cons vs pgs)
  have n: "snd (emit_polygon t vs) = None" "snd (emit_polygons t pgs) = None"
    using Cons.prems by (auto split: option.splits)
  have v: "snd (emit_vertices t vs) = None"
    using n(1) by (auto simp add: emit_polygon_def split: option.splits)
  then have b: "fst (emit_polygon t vs) = PolygonOpen # fst (emit_vertices t vs) @ [PolygonClose]"
    by (simp add: emit_polygon_def)
  obtain blocks where bl: "fst (emit_polygons t pgs) = concat blocks"
      "list_all2 (\<lambda>vs blk. snd (emit_vertices t vs) = None
                \<and> blk = PolygonOpen # fst (emit_vertices t vs) @ [PolygonClose]) pgs blocks"
    using Cons.IH [OF n(2)] by blast
  have "fst (emit_polygons t (vs # pgs))
          = concat ((PolygonOpen # fst (emit_vertices t vs) @ [PolygonClose]) # blocks)"
    using n(1) b bl(1) by simp
  moreover have "list_all2 (\<lambda>vs blk. snd (emit_vertices t vs) = None
                \<and> blk = PolygonOpen # fst (emit_vertices t vs) @ [PolygonClose]) (vs # pgs)
                ((PolygonOpen # fst (emit_vertices t vs) @ [PolygonClose]) # blocks)"
    using v bl(2) by simp
  ultimately show ?case by blast
qed

lemma block_of_ring:
  assumes "4 \<le> length ring" "vertices (butlast ring) = Inr vs"
    and "snd (emit_vertices t vs) = None"
  shows "block_of t ring (PolygonOpen # fst (emit_vertices t vs) @ [PolygonClose])"
proof -
  define ls where "ls = fst (emit_vertices t vs)"
  have a: "list_all2 (\<lambda>v p. vertex v = Inr p) (butlast ring) vs"
    using assms(2) by (rule vertices_all2)
  have b: "list_all2 (\<lambda>p l. \<exists>x y. l = VertexLine x y \<and> transform_xy t p = Inr (x, y)) vs ls"
    unfolding ls_def using assms(3) by (rule emit_vertices_lines)
  have l1: "length vs = length ring - 1" using a by (auto dest: list_all2_lengthD)
  have l2: "length ls = length vs" using b by (auto dest: list_all2_lengthD)
  have len: "Suc (length ls) = length ring" using l1 l2 assms(1) by simp
  have "\<exists>p x y. vertex (ring ! i) = Inr p \<and> transform_xy t p = Inr (x, y) \<and> ls ! i = VertexLine x y"
    if i: "i < length ls" for i
  proof -
    have ib: "i < length (butlast ring)" using i l1 l2 by simp
    then have "vertex (butlast ring ! i) = Inr (vs ! i)" using a by (auto dest: list_all2_nthD)
    then have 1: "vertex (ring ! i) = Inr (vs ! i)" using ib by (simp add: nth_butlast)
    have "\<exists>x y. ls ! i = VertexLine x y \<and> transform_xy t (vs ! i) = Inr (x, y)"
      using b i l2 by (auto dest: list_all2_nthD)
    then show ?thesis using 1 by blast
  qed
  then show ?thesis unfolding block_of_def ls_def [symmetric] using len by blast
qed

lemma run_scenario:
  "main scenario =
       ([PointLine ''A'' (Num (PFloat (Fin 0))) (Num (PFloat (Fin 0))),
         PolygonOpen,
         VertexLine (Num (PFloat (Fin (- 475)))) (Num (PFloat (Fin (- 475)))),
         VertexLine (Num (PFloat (Fin 475))) (Num (PFloat (Fin (- 475)))),
         VertexLine (Num (PFloat (Fin 475))) (Num (PFloat (Fin 475))),
         PolygonClose], None)"
  by (simp add: main_def parse_scenario bbox_scenario transform_scenario
        emit_def emit_polygon_def transform_xy_def transform_coord_def float_op_def xy_def
        round64_zero)

lemma round64_beyond: "round64 (of_int beyond_float) = PInf"
  by (rule round64_overflow) (simp add: beyond_float_def)

section \<open>The bounding box of numbers\<close>

lemma num_lt_val: "finite_num a \<Longrightarrow> finite_num b \<Longrightarrow> num_lt a b = (val a < val b)"
  by (cases a rule: finite_num.cases; cases b rule: finite_num.cases) (simp_all add: num_lt_def)

lemma py_min_num:
  "finite_num a \<Longrightarrow> finite_num b \<Longrightarrow>
     py_min (Num a) (Num b) = Inr (Num (if val b < val a then b else a))"
  by (simp add: py_min_def num_lt_val)

lemma py_max_num:
  "finite_num a \<Longrightarrow> finite_num b \<Longrightarrow>
     py_max (Num a) (Num b) = Inr (Num (if val a < val b then b else a))"
  by (simp add: py_max_def num_lt_val)

lemma extend_box_ok:
  assumes "box_of cs b" "numeric p"
  shows "\<exists>b'. extend_box b p = Inr b' \<and> box_of (cs @ [p]) b'"
proof -
  obtain xl xh yl yh where b: "b = \<lparr>x_min = Num xl, x_max = Num xh, y_min = Num yl, y_max = Num yh\<rparr>"
    and f: "finite_num xl" "finite_num xh" "finite_num yl" "finite_num yh"
    and m: "Num xl \<in> fst ` set cs" "Num xh \<in> fst ` set cs"
           "Num yl \<in> snd ` set cs" "Num yh \<in> snd ` set cs"
    and le: "\<And>a c. (Num a, Num c) \<in> set cs \<Longrightarrow>
              val xl \<le> val a \<and> val a \<le> val xh \<and> val yl \<le> val c \<and> val c \<le> val yh"
    using assms(1) unfolding box_of_def by blast
  obtain u v where p: "p = (Num u, Num v)" and fp: "finite_num u" "finite_num v"
    using assms(2) unfolding numeric_def by blast
  define xl' where "xl' = (if val u < val xl then u else xl)"
  define xh' where "xh' = (if val xh < val u then u else xh)"
  define yl' where "yl' = (if val v < val yl then v else yl)"
  define yh' where "yh' = (if val yh < val v then v else yh)"
  have e: "extend_box b p = Inr \<lparr>x_min = Num xl', x_max = Num xh', y_min = Num yl', y_max = Num yh'\<rparr>"
    using f fp by (simp add: extend_box_def b p py_min_num py_max_num xl'_def xh'_def yl'_def yh'_def)
  have f': "finite_num xl'" "finite_num xh'" "finite_num yl'" "finite_num yh'"
    using f fp by (simp_all add: xl'_def xh'_def yl'_def yh'_def)
  have m': "Num xl' \<in> fst ` set (cs @ [p])" "Num xh' \<in> fst ` set (cs @ [p])"
           "Num yl' \<in> snd ` set (cs @ [p])" "Num yh' \<in> snd ` set (cs @ [p])"
    using m by (auto simp add: xl'_def xh'_def yl'_def yh'_def p)
  have le': "\<forall>a c. (Num a, Num c) \<in> set (cs @ [p]) \<longrightarrow>
              val xl' \<le> val a \<and> val a \<le> val xh' \<and> val yl' \<le> val c \<and> val c \<le> val yh'"
  proof (intro allI impI)
    fix a c assume "(Num a, Num c) \<in> set (cs @ [p])"
    then consider "(Num a, Num c) \<in> set cs" | "a = u \<and> c = v" by (auto simp add: p)
    then show "val xl' \<le> val a \<and> val a \<le> val xh' \<and> val yl' \<le> val c \<and> val c \<le> val yh'"
    proof cases
      case 1
      then show ?thesis using le [OF 1] by (auto simp add: xl'_def xh'_def yl'_def yh'_def)
    next
      case 2
      then show ?thesis by (auto simp add: xl'_def xh'_def yl'_def yh'_def)
    qed
  qed
  have "box_of (cs @ [p]) \<lparr>x_min = Num xl', x_max = Num xh', y_min = Num yl', y_max = Num yh'\<rparr>"
    unfolding box_of_def using f' m' le' by blast
  then show ?thesis using e by simp
qed

lemma box_of_set: "set cs = set cs' \<Longrightarrow> box_of cs b \<Longrightarrow> box_of cs' b"
  by (simp add: box_of_def)

lemma extend_all_ok:
  assumes "box_of cs b" "\<forall>p \<in> set ps. numeric p"
  shows "\<exists>b'. extend_all b ps = Inr b' \<and> box_of (cs @ ps) b'"
  using assms
proof (induction ps arbitrary: cs b)
  case Nil
  then show ?case by simp
next
  case (Cons p ps)
  have "numeric p" using Cons.prems(2) by simp
  then obtain b1 where b1: "extend_box b p = Inr b1" "box_of (cs @ [p]) b1"
    using extend_box_ok [OF Cons.prems(1), of p] by blast
  obtain b' where "extend_all b1 ps = Inr b'" "box_of ((cs @ [p]) @ ps) b'"
    using Cons.IH [OF b1(2)] Cons.prems(2) by auto
  then show ?case using b1(1) by simp
qed

lemma extend_polygons_ok:
  assumes "box_of cs b" "\<forall>p \<in> set (concat pgs). numeric p"
  shows "\<exists>b'. extend_polygons b pgs = Inr b' \<and> box_of (cs @ concat pgs) b'"
  using assms
proof (induction pgs arbitrary: cs b)
  case Nil
  then show ?case by simp
next
  case (Cons pg pgs)
  obtain b1 where b1: "extend_all b pg = Inr b1" "box_of (cs @ pg) b1"
    using extend_all_ok [OF Cons.prems(1), of pg] Cons.prems(2) by auto
  obtain b' where "extend_polygons b1 pgs = Inr b'" "box_of ((cs @ pg) @ concat pgs) b'"
    using Cons.IH [OF b1(2)] Cons.prems(2) by auto
  then show ?case using b1(1) by simp
qed

lemma bounding_box_ok:
  assumes "points \<noteq> []" "\<forall>p \<in> set (coords points polygons). numeric p"
  shows "\<exists>b. bounding_box points polygons = Inr b \<and> box_of (coords points polygons) b"
proof -
  obtain p0 ps where pts: "points = p0 # ps" using assms(1) by (cases points) auto
  have n0: "numeric (xy p0)" using assms(2) by (simp add: coords_def pts)
  then obtain u v where uv: "xy p0 = (Num u, Num v)" "finite_num u" "finite_num v"
    unfolding numeric_def by blast
  define seed where "seed = \<lparr>x_min = fst (xy p0), x_max = fst (xy p0),
                            y_min = snd (xy p0), y_max = snd (xy p0)\<rparr>"
  have s: "box_of [xy p0] seed"
    unfolding box_of_def seed_def using uv by auto
  obtain b1 where b1: "extend_all seed (map xy points) = Inr b1" "box_of ([xy p0] @ map xy points) b1"
    using extend_all_ok [OF s, of "map xy points"] assms(2) by (auto simp add: coords_def)
  obtain b where b: "extend_polygons b1 polygons = Inr b"
      "box_of (([xy p0] @ map xy points) @ concat polygons) b"
    using extend_polygons_ok [OF b1(2), of polygons] assms(2) by (auto simp add: coords_def)
  have "set (([xy p0] @ map xy points) @ concat polygons) = set (coords points polygons)"
    by (auto simp add: coords_def pts)
  then have "box_of (coords points polygons) b" using b(2) box_of_set by blast
  moreover have "bounding_box points polygons = Inr b"
    using b1(1) b(1) by (simp add: bounding_box_def pts seed_def)
  ultimately show ?thesis by blast
qed

section \<open>Shift and scale of numbers in range\<close>

lemma in_range_finite: "in_range a \<Longrightarrow> finite_num a"
  by (cases a rule: in_range.cases) simp_all

lemma in_range_pair_numeric: "in_range_pair p \<Longrightarrow> numeric p"
  unfolding in_range_pair_def numeric_def using in_range_finite by blast

lemma round64_int:
  assumes "\<bar>i\<bar> < 2 ^ 1023"
  shows "\<exists>r. round64 (of_int i) = Fin r"
proof -
  have "\<bar>of_int i :: rat\<bar> < 2 ^ 1023"
    using assms by (metis of_int_abs of_int_less_iff of_int_numeral of_int_power)
  then show ?thesis by (rule round64_finite)
qed

lemma to_float_int:
  assumes "\<bar>i\<bar> < 2 ^ 1023"
  shows "\<exists>r. to_float (PInt i) = Inr (Fin r)"
  using round64_int [OF assms] by auto

lemma halve_int:
  assumes "\<bar>s\<bar> < 2 ^ 1023"
  shows "\<exists>g. num_div (PInt s) (PFloat (Fin 2)) = Inr (PFloat g)"
  using round64_int [OF assms] by (auto simp add: float_op_def)

lemma halve_float: "\<exists>g. num_div (PFloat f) (PFloat (Fin 2)) = Inr (PFloat g)"
  by (cases f) (simp_all add: float_op_def)

lemma divide_950_int:
  assumes "\<bar>s\<bar> < 2 ^ 1023"
  shows "num_div (PFloat (Fin 950)) (PInt s) = Inl ZeroDivisionError
         \<or> (\<exists>g. num_div (PFloat (Fin 950)) (PInt s) = Inr (PFloat g))"
proof -
  obtain r where r: "round64 (of_int s) = Fin r" using round64_int [OF assms] by blast
  show ?thesis by (cases "r = 0") (simp_all add: float_op_def r)
qed

lemma divide_950_float:
  "num_div (PFloat (Fin 950)) (PFloat f) = Inl ZeroDivisionError
   \<or> (\<exists>g. num_div (PFloat (Fin 950)) (PFloat f) = Inr (PFloat g))"
  by (cases f) (simp_all add: float_op_def)

lemma to_float_ok:
  assumes "in_range a"
  shows "\<exists>r. to_float a = Inr (Fin r)"
proof (cases a)
  case (PInt i)
  then have "\<bar>i\<bar> < 2 ^ 1023" using assms by simp
  then show ?thesis using to_float_int PInt by blast
next
  case (PFloat f)
  then show ?thesis using assms by (cases f) simp_all
qed

lemma extent_950: "py_sub MAP_SIZE MARGIN = Inr (Num (PFloat (Fin 950)))"
  by (simp add: MAP_SIZE_def MARGIN_def float_op_def)

text \<open>The sum of two numbers in range: an int that converts, or a float.\<close>

lemma num_add_ok:
  assumes "in_range a" "in_range b"
  shows "(\<exists>s. num_add a b = Inr (PInt s) \<and> \<bar>s\<bar> < 2 ^ 1023) \<or> (\<exists>f. num_add a b = Inr (PFloat f))"
proof -
  obtain r where r: "to_float a = Inr (Fin r)" using to_float_ok [OF assms(1)] by blast
  obtain t where t: "to_float b = Inr (Fin t)" using to_float_ok [OF assms(2)] by blast
  show ?thesis
  proof (cases a)
    case a: (PInt i)
    show ?thesis
    proof (cases b)
      case (PInt j)
      then have "\<bar>i + j\<bar> < 2 ^ 1023" using a assms by simp
      then show ?thesis using a PInt by simp
    next
      case (PFloat g)
      then show ?thesis using a r t by (simp add: float_op_def)
    qed
  next
    case (PFloat f)
    then show ?thesis using r t by (simp add: float_op_def)
  qed
qed

lemma num_sub_ok:
  assumes "in_range a" "in_range b"
  shows "(\<exists>s. num_sub a b = Inr (PInt s) \<and> \<bar>s\<bar> < 2 ^ 1023) \<or> (\<exists>f. num_sub a b = Inr (PFloat f))"
proof -
  obtain r where r: "to_float a = Inr (Fin r)" using to_float_ok [OF assms(1)] by blast
  obtain t where t: "to_float b = Inr (Fin t)" using to_float_ok [OF assms(2)] by blast
  show ?thesis
  proof (cases a)
    case a: (PInt i)
    show ?thesis
    proof (cases b)
      case (PInt j)
      then have "\<bar>i - j\<bar> < 2 ^ 1023" using a assms by simp
      then show ?thesis using a PInt by simp
    next
      case (PFloat g)
      then show ?thesis using a r t by (simp add: float_op_def)
    qed
  next
    case (PFloat f)
    then show ?thesis using r t by (simp add: float_op_def)
  qed
qed

lemma shift_ok:
  assumes "in_range a" "in_range b"
  shows "\<exists>g. shift (Num a) (Num b) = Inr (Num (PFloat g))"
proof -
  consider s where "num_add a b = Inr (PInt s)" "\<bar>s\<bar> < 2 ^ 1023"
    | f where "num_add a b = Inr (PFloat f)"
    using num_add_ok [OF assms] by blast
  then show ?thesis
  proof cases
    case 1
    obtain g where "num_div (PInt s) (PFloat (Fin 2)) = Inr (PFloat g)"
      using halve_int [OF 1(2)] by blast
    then show ?thesis using 1(1) by (simp add: shift_def)
  next
    case 2
    obtain g where "num_div (PFloat f) (PFloat (Fin 2)) = Inr (PFloat g)"
      using halve_float by blast
    then show ?thesis using 2 by (simp add: shift_def)
  qed
qed

lemma scale_cases:
  assumes "in_range a" "in_range b"
  shows "scale (Num a) (Num b) = Inl ZeroDivisionError
         \<or> (\<exists>g. scale (Num a) (Num b) = Inr (Num (PFloat g)))"
proof -
  consider s where "num_sub a b = Inr (PInt s)" "\<bar>s\<bar> < 2 ^ 1023"
    | f where "num_sub a b = Inr (PFloat f)"
    using num_sub_ok [OF assms] by blast
  then show ?thesis
  proof cases
    case 1
    have "num_div (PFloat (Fin 950)) (PInt s) = Inl ZeroDivisionError
         \<or> (\<exists>g. num_div (PFloat (Fin 950)) (PInt s) = Inr (PFloat g))"
      using divide_950_int [OF 1(2)] .
    then show ?thesis using 1(1) by (auto simp add: scale_def extent_950)
  next
    case 2
    have "num_div (PFloat (Fin 950)) (PFloat f) = Inl ZeroDivisionError
         \<or> (\<exists>g. num_div (PFloat (Fin 950)) (PFloat f) = Inr (PFloat g))"
      using divide_950_float .
    then show ?thesis using 2 by (auto simp add: scale_def extent_950)
  qed
qed

lemma box_of_in_range:
  assumes "box_of cs b" "\<forall>p \<in> set cs. in_range_pair p"
  shows "\<exists>xl xh yl yh.
           b = \<lparr>x_min = Num xl, x_max = Num xh, y_min = Num yl, y_max = Num yh\<rparr>
           \<and> in_range xl \<and> in_range xh \<and> in_range yl \<and> in_range yh"
proof -
  obtain xl xh yl yh where b: "b = \<lparr>x_min = Num xl, x_max = Num xh, y_min = Num yl, y_max = Num yh\<rparr>"
    and m: "Num xl \<in> fst ` set cs" "Num xh \<in> fst ` set cs"
           "Num yl \<in> snd ` set cs" "Num yh \<in> snd ` set cs"
    using assms(1) unfolding box_of_def by blast
  have f: "Num u \<in> fst ` set cs \<Longrightarrow> in_range u" for u
    using assms(2) by (auto simp add: in_range_pair_def)
  have s: "Num u \<in> snd ` set cs \<Longrightarrow> in_range u" for u
    using assms(2) by (auto simp add: in_range_pair_def)
  show ?thesis using b f [OF m(1)] f [OF m(2)] s [OF m(3)] s [OF m(4)] by blast
qed

section \<open>Shift and scale of finite numbers\<close>

lemma json_number_finite: "json_number a \<Longrightarrow> finite_num a"
  by (cases a rule: json_number.cases) simp_all

lemma json_pair_numeric: "json_pair p \<Longrightarrow> numeric p"
  unfolding json_pair_def numeric_def using json_number_finite by blast

lemma in_range_json: "in_range a \<Longrightarrow> json_number a"
  by (cases a rule: in_range.cases) (simp_all add: exact64_def)

lemma to_float_cases:
  "finite_num a \<Longrightarrow> to_float a = Inl OverflowError \<or> (\<exists>r. to_float a = Inr (Fin r))"
  by (cases a rule: finite_num.cases) (auto split: float64.splits)

lemma halve_cases:
  "num_div n (PFloat (Fin 2)) = Inl OverflowError
   \<or> (\<exists>g. num_div n (PFloat (Fin 2)) = Inr (PFloat g))"
proof (cases n)
  case (PInt i)
  then show ?thesis by (cases "round64 (of_int i)") (simp_all add: float_op_def)
next
  case (PFloat f)
  then show ?thesis using halve_float [of f] by simp
qed

lemma num_add_cases:
  assumes "finite_num a" "finite_num b"
  shows "num_add a b = Inl OverflowError \<or> (\<exists>n. num_add a b = Inr n)"
proof (cases "\<exists>i j. a = PInt i \<and> b = PInt j")
  case True
  then show ?thesis by auto
next
  case False
  then have e: "num_add a b = float_op (\<lambda>x y. Inr (float_add x y)) a b"
    by (cases a; cases b) simp_all
  show ?thesis
    using to_float_cases [OF assms(1)] to_float_cases [OF assms(2)]
    by (auto simp add: e float_op_def)
qed

lemma num_sub_cases:
  assumes "finite_num a" "finite_num b"
  shows "num_sub a b = Inl OverflowError \<or> (\<exists>n. num_sub a b = Inr n)"
proof (cases "\<exists>i j. a = PInt i \<and> b = PInt j")
  case True
  then show ?thesis by auto
next
  case False
  then have e: "num_sub a b = float_op (\<lambda>x y. Inr (float_sub x y)) a b"
    by (cases a; cases b) simp_all
  show ?thesis
    using to_float_cases [OF assms(1)] to_float_cases [OF assms(2)]
    by (auto simp add: e float_op_def)
qed

lemma shift_cases:
  assumes "finite_num a" "finite_num b"
  shows "shift (Num a) (Num b) = Inl OverflowError
         \<or> (\<exists>g. shift (Num a) (Num b) = Inr (Num (PFloat g)))"
proof -
  consider "num_add a b = Inl OverflowError" | n where "num_add a b = Inr n"
    using num_add_cases [OF assms] by blast
  then show ?thesis
  proof cases
    case 1
    then show ?thesis by (simp add: shift_def)
  next
    case 2
    then show ?thesis using halve_cases [of n] by (auto simp add: shift_def)
  qed
qed

lemma divide_950_cases:
  "num_div (PFloat (Fin 950)) n = Inl ZeroDivisionError
   \<or> num_div (PFloat (Fin 950)) n = Inl OverflowError
   \<or> (\<exists>g. num_div (PFloat (Fin 950)) n = Inr (PFloat g))"
proof (cases n)
  case (PInt i)
  show ?thesis
  proof (cases "round64 (of_int i)")
    case (Fin r)
    then show ?thesis using PInt by (cases "r = 0") (simp_all add: float_op_def)
  qed (simp_all add: PInt float_op_def)
next
  case (PFloat f)
  then show ?thesis using divide_950_float [of f] by auto
qed

lemma scale_cases_finite:
  assumes "finite_num a" "finite_num b"
  shows "scale (Num a) (Num b) = Inl ZeroDivisionError
         \<or> scale (Num a) (Num b) = Inl OverflowError
         \<or> (\<exists>g. scale (Num a) (Num b) = Inr (Num (PFloat g)))"
proof -
  consider "num_sub a b = Inl OverflowError" | n where "num_sub a b = Inr n"
    using num_sub_cases [OF assms] by blast
  then show ?thesis
  proof cases
    case 1
    then show ?thesis by (simp add: scale_def extent_950)
  next
    case 2
    then show ?thesis using divide_950_cases [of n] by (auto simp add: scale_def extent_950)
  qed
qed

lemma to_float_json_eq:
  assumes "json_number a" "json_number b" "val a = val b"
  shows "to_float a = to_float b \<and> (\<exists>r. to_float a = Inr (Fin r)) \<or> (\<exists>i. a = PInt i \<and> b = PInt i)"
proof (cases a)
  case a: (PInt i)
  show ?thesis
  proof (cases b)
    case (PInt j)
    then show ?thesis using a assms(3) by simp
  next
    case (PFloat f)
    then show ?thesis using a assms by (cases f) (simp_all add: exact64_def)
  qed
next
  case a: (PFloat f)
  show ?thesis
  proof (cases b)
    case (PInt j)
    then show ?thesis using a assms by (cases f) (simp_all add: exact64_def)
  next
    case (PFloat g)
    then show ?thesis using a assms by (cases f; cases g) simp_all
  qed
qed

lemma scale_zero_width:
  assumes "json_number a" "json_number b" "val a = val b"
  shows "scale (Num a) (Num b) = Inl ZeroDivisionError"
proof -
  have "num_sub a b = Inr (PInt 0) \<or> num_sub a b = Inr (PFloat (Fin 0))"
  proof (cases "\<exists>i. a = PInt i \<and> b = PInt i")
    case True
    then show ?thesis by auto
  next
    case False
    then have "to_float a = to_float b \<and> (\<exists>r. to_float a = Inr (Fin r))"
      using to_float_json_eq [OF assms] by blast
    then obtain r where r: "to_float a = Inr (Fin r)" "to_float b = Inr (Fin r)"
      by metis
    have "\<not> (\<exists>i j. a = PInt i \<and> b = PInt j)" using False assms(3) by auto
    then have e: "num_sub a b = float_op (\<lambda>x y. Inr (float_sub x y)) a b"
      by (cases a; cases b) simp_all
    show ?thesis by (simp add: e float_op_def r round64_zero)
  qed
  then show ?thesis
    by (auto simp add: scale_def extent_950 float_op_def round64_zero)
qed

lemma box_of_json:
  assumes "box_of cs b" "\<forall>p \<in> set cs. json_pair p"
  shows "\<exists>xl xh yl yh.
           b = \<lparr>x_min = Num xl, x_max = Num xh, y_min = Num yl, y_max = Num yh\<rparr>
           \<and> json_number xl \<and> json_number xh \<and> json_number yl \<and> json_number yh"
proof -
  obtain xl xh yl yh where b: "b = \<lparr>x_min = Num xl, x_max = Num xh, y_min = Num yl, y_max = Num yh\<rparr>"
    and m: "Num xl \<in> fst ` set cs" "Num xh \<in> fst ` set cs"
           "Num yl \<in> snd ` set cs" "Num yh \<in> snd ` set cs"
    using assms(1) unfolding box_of_def by blast
  have f: "Num u \<in> fst ` set cs \<Longrightarrow> json_number u" for u
    using assms(2) by (auto simp add: json_pair_def)
  have s: "Num u \<in> snd ` set cs \<Longrightarrow> json_number u" for u
    using assms(2) by (auto simp add: json_pair_def)
  show ?thesis using b f [OF m(1)] f [OF m(2)] s [OF m(3)] s [OF m(4)] by blast
qed

lemma num_eq_val: "json_number u \<Longrightarrow> json_number v \<Longrightarrow> num_eq u v \<Longrightarrow> val u = val v"
  by (cases u rule: json_number.cases; cases v rule: json_number.cases)
    (simp_all add: num_eq_def)

lemma zero_range_transform:
  assumes "json_number xl" "json_number xh" "json_number yl" "json_number yh"
    and "val xh = val xl \<or> val yh = val yl"
  shows "build_transform \<lparr>x_min = Num xl, x_max = Num xh, y_min = Num yl, y_max = Num yh\<rparr>
           = Inl ZeroDivisionError
       \<or> build_transform \<lparr>x_min = Num xl, x_max = Num xh, y_min = Num yl, y_max = Num yh\<rparr>
           = Inl OverflowError"
proof -
  note f = assms(1-4) [THEN json_number_finite]
  consider "shift (Num xh) (Num xl) = Inl OverflowError"
    | g where "shift (Num xh) (Num xl) = Inr (Num (PFloat g))"
    using shift_cases [OF f(2) f(1)] by blast
  then show ?thesis
  proof cases
    case 1
    then show ?thesis by (simp add: build_transform_def)
  next
    case sx: 2
    show ?thesis
    proof (cases "val xh = val xl")
      case True
      then have "scale (Num xh) (Num xl) = Inl ZeroDivisionError"
        using scale_zero_width [OF assms(2) assms(1)] by simp
      then show ?thesis using sx by (simp add: build_transform_def)
    next
      case False
      then have "val yh = val yl" using assms(5) by simp
      then have y: "scale (Num yh) (Num yl) = Inl ZeroDivisionError"
        using scale_zero_width [OF assms(4) assms(3)] by simp
      show ?thesis
        using scale_cases_finite [OF f(2) f(1)] shift_cases [OF f(4) f(3)] sx y
        by (auto simp add: build_transform_def)
    qed
  qed
qed

lemma round64_twice_half_beyond:
  "round64 (of_int half_beyond + of_int half_beyond) = PInf"
  "round64 (of_int (half_beyond + half_beyond)) = PInf"
  "round64 (2 * of_int half_beyond) = PInf"
  by (rule round64_overflow, simp add: half_beyond_def)+

lemma run_huge_point: "main huge_point = ([], Some OverflowError)"
proof -
  have p: "parse_features ([], []) huge_point
             = Inr ([(Num (PInt half_beyond), Num (PInt 0), ''A'')], [])"
    by (simp add: huge_point_def parse_point_feature int_pair_def)
  show ?thesis unfolding main_def p by (simp add: run_defs round64_twice_half_beyond)
qed

lemma run_infinite_pair:
  "main infinite_pair =
     ([PointLine ''A'' (Num (PFloat NaN)) (Num (PFloat (Fin (- 475)))),
       PointLine ''B'' (Num (PFloat NaN)) (Num (PFloat (Fin 475)))], None)"
proof -
  have p: "parse_features ([], []) infinite_pair
             = Inr ([(Num (PFloat PInf), Num (PInt 0), ''A''),
                     (Num (PFloat PInf), Num (PInt 1), ''B'')], [])"
    by (simp add: infinite_pair_def parse_point_feature)
  show ?thesis unfolding main_def p by (simp add: run_defs num_lt_def)
qed

section \<open>Runs without rounding\<close>

lemma to_float_exact:
  "finite_num a \<Longrightarrow> exact64 (val a) \<Longrightarrow> to_float a = Inr (Fin (val a))"
  by (cases a rule: finite_num.cases) (simp_all add: exact64_def)






















section \<open>The shift and the centre of the box\<close>

lemma json_number_on_grid: "json_number a \<Longrightarrow> on_grid (val a)"
  by (cases a rule: json_number.cases) (simp_all add: on_grid_int exact64_on_grid)

lemma lift_num_Inr: "lift_num x = Inr (Num n) \<longleftrightarrow> x = Inr n"
  by (cases x) auto

lemma halve_sum:
  assumes "num_div n (PFloat (Fin 2)) = Inr (PFloat (Fin s))"
  shows "\<exists>r. to_float n = Inr (Fin r) \<and> round64 (r / 2) = Fin s"
proof (cases n)
  case (PInt i)
  then show ?thesis using assms
    by (cases "round64 (of_int i)") (simp_all add: float_op_def)
next
  case (PFloat g)
  then show ?thesis using assms by (cases g) (simp_all add: float_op_def)
qed

lemma num_add_sum:
  assumes "json_number a" "json_number b" "same_kind_or_exact (Num a) (Num b)"
    and "num_add a b = Inr n" "to_float n = Inr (Fin r)"
  shows "round64 (val a + val b) = Fin r"
proof (cases "\<exists>i j. a = PInt i \<and> b = PInt j")
  case True
  then obtain i j where ij: "a = PInt i" "b = PInt j" by blast
  then have "n = PInt (i + j)" using assms(4) by simp
  then show ?thesis using assms(5) ij
    by (cases "round64 (of_int (i + j))") simp_all
next
  case False
  then have e: "num_add a b = float_op (\<lambda>x y. Inr (float_add x y)) a b"
    by (cases a; cases b) simp_all
  have x: "exact64 (val a)" "exact64 (val b)"
    using False assms(3) by (cases a; cases b; simp)+
  have t: "to_float a = Inr (Fin (val a))" "to_float b = Inr (Fin (val b))"
    using assms(1,2) x by (simp_all add: to_float_exact json_number_finite)
  have "n = PFloat (round64 (val a + val b))"
    using assms(4) by (simp add: e float_op_def t)
  then show ?thesis using assms(5) by simp
qed

lemma shift_nearest:
  assumes "json_number a" "json_number b" "same_kind_or_exact (Num a) (Num b)"
    and "shift (Num a) (Num b) = Inr (Num (PFloat (Fin s)))"
  shows "round64 ((val a + val b) / 2) = Fin s"
proof -
  obtain n where n: "num_add a b = Inr n" "num_div n (PFloat (Fin 2)) = Inr (PFloat (Fin s))"
    using assms(4) by (cases "num_add a b") (simp_all add: shift_def lift_num_Inr)
  obtain r where r: "to_float n = Inr (Fin r)" "round64 (r / 2) = Fin s"
    using halve_sum [OF n(2)] by blast
  have sum: "round64 (val a + val b) = Fin r"
    using assms(1-3) n(1) r(1) by (rule num_add_sum)
  have g: "on_grid (val a + val b)"
    using assms(1,2) by (intro on_grid_add json_number_on_grid)
  have rn: "r = nearest (val a + val b)" "\<bar>nearest (val a + val b)\<bar> < 2 ^ 1024"
    using round64_Fin_nearest [OF sum] by simp_all
  have sn: "s = nearest (r / 2)" "\<bar>nearest (r / 2)\<bar> < 2 ^ 1024"
    using round64_Fin_nearest [OF r(2)] by simp_all
  have "nearest (r / 2) = nearest ((val a + val b) / 2)"
    unfolding rn(1) using g rn(2) by (rule nearest_half)
  then show ?thesis using sn by (simp add: nearest_round64)
qed

lemma transform_coord_shift:
  "transform_coord (Num (PFloat (Fin k))) (Num (PFloat (Fin s))) (Num (PFloat (Fin s)))
     = Inr (Num (PFloat (Fin 0)))"
  by (simp add: transform_coord_def float_op_def round64_zero)

subsection \<open>Rounding in the examples of the centre\<close>

lemma least_float_pos: "0 < least_float"
  by (simp add: least_float_def)

lemma round64_least_float: "round64 least_float = Fin least_float"
  using round64_exact [of 1 "- 1074"] by (simp add: least_float_def power_int_minus)

lemma round_half_even_half: "round_half_even (1 / 2) = 0"
proof -
  have f: "\<lfloor>(1::rat) / 2\<rfloor> = 0" by (rule floor_unique) simp_all
  show ?thesis unfolding round_half_even_def Let_def f by simp
qed

lemma round64_half_least_float: "round64 (least_float / 2) = Fin 0"
  using round64_pos [of "least_float / 2" "- 1075"]
  by (simp add: least_float_def power_int_minus round_half_even_half)

lemma round64_950_least_float: "round64 (950 / least_float) = PInf"
  by (rule round64_overflow) (simp add: least_float_def)

lemma run_tiny_pair:
  "bounding_box [(Num (PFloat (Fin 0)), Num (PInt 0), ''A''),
                 (Num (PFloat (Fin least_float)), Num (PInt 1), ''B'')] []
     = Inr \<lparr>x_min = Num (PFloat (Fin 0)), x_max = Num (PFloat (Fin least_float)),
            y_min = Num (PInt 0), y_max = Num (PInt 1)\<rparr>"
  "build_transform \<lparr>x_min = Num (PFloat (Fin 0)), x_max = Num (PFloat (Fin least_float)),
            y_min = Num (PInt 0), y_max = Num (PInt 1)\<rparr>
     = Inr \<lparr>x_shift = Num (PFloat (Fin 0)), x_scale = Num (PFloat PInf),
            y_shift = Num (PFloat (Fin (1 / 2))), y_scale = Num (PFloat (Fin 950))\<rparr>"
  using least_float_pos
  by (simp_all add: run_defs num_lt_def round64_least_float round64_half_least_float
        round64_950_least_float)

lemma round_half_even_tie_odd:
  "round_half_even (9007199254740995 / 2) = 4503599627370498"
proof -
  have f: "\<lfloor>(9007199254740995::rat) / 2\<rfloor> = 4503599627370497"
    by (rule floor_unique) simp_all
  show ?thesis unfolding round_half_even_def Let_def f by simp
qed

lemma round64_2_53_3: "round64 9007199254740995 = Fin 9007199254740996"
  using round64_pos [of 9007199254740995 53]
  by (simp add: round_half_even_tie_odd)

lemma round64_2_53_4: "round64 9007199254740996 = Fin 9007199254740996"
  using round64_exact [of "2 ^ 52 + 2" 1] by simp

lemma round64_2_54_6: "round64 18014398509481990 = Fin 18014398509481992"
  using round64_pos [of 18014398509481990 54]
  by (simp add: round_half_even_tie_odd)

lemma round64_centre_mixed: "round64 (18014398509481989 / 2) = Fin 9007199254740994"
  using round64_near [of "18014398509481989 / 2" 53 4503599627370497]
  by simp

lemma run_mixed_pair:
  "bounding_box [(Num (PFloat (Fin 9007199254740994)), Num (PInt 0), ''A''),
                 (Num (PInt 9007199254740995), Num (PInt 1), ''B'')] []
     = Inr \<lparr>x_min = Num (PFloat (Fin 9007199254740994)), x_max = Num (PInt 9007199254740995),
            y_min = Num (PInt 0), y_max = Num (PInt 1)\<rparr>"
  "build_transform \<lparr>x_min = Num (PFloat (Fin 9007199254740994)),
            x_max = Num (PInt 9007199254740995), y_min = Num (PInt 0), y_max = Num (PInt 1)\<rparr>
     = Inr \<lparr>x_shift = Num (PFloat (Fin 9007199254740996)), x_scale = Num (PFloat (Fin 475)),
            y_shift = Num (PFloat (Fin (1 / 2))), y_scale = Num (PFloat (Fin 950))\<rparr>"
  by (simp_all add: run_defs num_lt_def round64_2_53_3 round64_2_53_4 round64_2_54_6
        round64_2_53_2)


lemma next_after_one_gt: "1 < next_after_one"
  by (simp add: next_after_one_def)

lemma round64_next_after_one: "round64 next_after_one = Fin next_after_one"
  using round64_exact [of "2 ^ 52 + 1" "- 52"]
  by (simp add: next_after_one_def power_int_minus field_simps)

lemma round64_sum_close: "round64 (next_after_one + 1) = Fin 2"
  using round64_pos [of "next_after_one + 1" 1]
  by (simp add: next_after_one_def power_int_minus round_half_even_tie)

lemma round64_centre_close: "round64 ((next_after_one + 1) / 2) = Fin 1"
  using round64_pos [of "(next_after_one + 1) / 2" 0]
  by (simp add: next_after_one_def power_int_minus round_half_even_tie)

lemma round64_width_close: "round64 (next_after_one - 1) = Fin (next_after_one - 1)"
  using round64_exact [of 1 "- 52"]
  by (simp add: next_after_one_def power_int_minus)

lemma round64_scale_close:
  "round64 (950 / (next_after_one - 1)) = Fin (950 / (next_after_one - 1))"
  using round64_exact [of 950 52]
  by (simp add: next_after_one_def)

lemma run_close_pair:
  "bounding_box [(Num (PFloat (Fin 1)), Num (PInt 0), ''A''),
                 (Num (PFloat (Fin next_after_one)), Num (PInt 1), ''B'')] []
     = Inr \<lparr>x_min = Num (PFloat (Fin 1)), x_max = Num (PFloat (Fin next_after_one)),
            y_min = Num (PInt 0), y_max = Num (PInt 1)\<rparr>"
  "build_transform \<lparr>x_min = Num (PFloat (Fin 1)), x_max = Num (PFloat (Fin next_after_one)),
            y_min = Num (PInt 0), y_max = Num (PInt 1)\<rparr>
     = Inr \<lparr>x_shift = Num (PFloat (Fin 1)),
            x_scale = Num (PFloat (Fin (950 / (next_after_one - 1)))),
            y_shift = Num (PFloat (Fin (1 / 2))), y_scale = Num (PFloat (Fin 950))\<rparr>"
  using next_after_one_gt
  by (simp_all add: run_defs num_lt_def round64_sum_close round64_width_close
        round64_scale_close)


section \<open>The claims\<close>

text \<open>
  C1. On the scenario (point \<^verbatim>\<open>A\<close> at \<^verbatim>\<open>[10, 10]\<close> and the closed ring
  \<^verbatim>\<open>[[0,0],[20,0],[20,20],[0,0]]\<close>) the features loop collects the point and the three
  vertices of the ring without its closing pair; the bounding box is \<open>[0, 20]\<close> on both
  axes; both shifts are \<open>10.0\<close> and both scales \<open>47.5\<close>; the run prints the point at
  \<open>(0.0, 0.0)\<close> and one polygon block with the vertices \<open>(-475, -475)\<close>, \<open>(475, -475)\<close>,
  \<open>(475, 475)\<close>, in that order, and ends normally.
\<close>

theorem C1_scenario:
  "parse_features ([], []) scenario =
     Inr ([(Num (PInt 10), Num (PInt 10), ''A'')],
          [[(Num (PInt 0), Num (PInt 0)), (Num (PInt 20), Num (PInt 0)),
            (Num (PInt 20), Num (PInt 20))]])
   \<and> bounding_box [(Num (PInt 10), Num (PInt 10), ''A'')]
          [[(Num (PInt 0), Num (PInt 0)), (Num (PInt 20), Num (PInt 0)),
            (Num (PInt 20), Num (PInt 20))]]
       = Inr \<lparr>x_min = Num (PInt 0), x_max = Num (PInt 20),
              y_min = Num (PInt 0), y_max = Num (PInt 20)\<rparr>
   \<and> build_transform \<lparr>x_min = Num (PInt 0), x_max = Num (PInt 20),
                       y_min = Num (PInt 0), y_max = Num (PInt 20)\<rparr>
       = Inr \<lparr>x_shift = Num (PFloat (Fin 10)), x_scale = Num (PFloat (Fin (95 / 2))),
              y_shift = Num (PFloat (Fin 10)), y_scale = Num (PFloat (Fin (95 / 2)))\<rparr>
   \<and> main scenario =
       ([PointLine ''A'' (Num (PFloat (Fin 0))) (Num (PFloat (Fin 0))),
         PolygonOpen,
         VertexLine (Num (PFloat (Fin (- 475)))) (Num (PFloat (Fin (- 475)))),
         VertexLine (Num (PFloat (Fin 475))) (Num (PFloat (Fin (- 475)))),
         VertexLine (Num (PFloat (Fin 475))) (Num (PFloat (Fin 475))),
         PolygonClose], None)"
proof -
  have "main scenario =
       ([PointLine ''A'' (Num (PFloat (Fin 0))) (Num (PFloat (Fin 0))),
         PolygonOpen,
         VertexLine (Num (PFloat (Fin (- 475)))) (Num (PFloat (Fin (- 475)))),
         VertexLine (Num (PFloat (Fin 475))) (Num (PFloat (Fin (- 475)))),
         VertexLine (Num (PFloat (Fin 475))) (Num (PFloat (Fin 475))),
         PolygonClose], None)"
    by (simp add: main_def parse_scenario bbox_scenario transform_scenario
          emit_def emit_polygon_def transform_xy_def transform_coord_def float_op_def xy_def
          round64_zero)
  then show ?thesis by (simp only: parse_scenario bbox_scenario transform_scenario simp_thms)
qed




text \<open>
  C3, as stated, fails in three ways, each on a box of positive width and height.

  The shift overflows: with the abscissas \<open>2\<^sup>1\<^sup>0\<^sup>2\<^sup>3\<close> and \<open>1.5 \<cdot> 2\<^sup>1\<^sup>0\<^sup>2\<^sup>3\<close> (the floats
  \<^verbatim>\<open>8.98846567431158e+307\<close> and \<^verbatim>\<open>1.348269851146737e+308\<close>) \<^verbatim>\<open>x_max + x_min\<close> is \<^verbatim>\<open>inf\<close>, so
  the shift is \<^verbatim>\<open>inf\<close>; the centre the script computes is sent to \<^verbatim>\<open>nan\<close>, and the centre
  \<open>1.25 \<cdot> 2\<^sup>1\<^sup>0\<^sup>2\<^sup>3\<close> of the box to \<^verbatim>\<open>-inf\<close>.

  The scale overflows: with the abscissas \<open>0.0\<close> and \<^verbatim>\<open>5e-324\<close> the scale is \<^verbatim>\<open>inf\<close> and
  the shift \<open>0.0\<close>, and the centre of the box, rounded to the float \<open>0.0\<close>, is sent to
  \<^verbatim>\<open>nan\<close>.

  An int is rounded when it meets a float: with the abscissas \<open>2\<^sup>5\<^sup>3 + 2\<close>, a float, and
  \<open>2\<^sup>5\<^sup>3 + 3\<close>, an int, the shift is \<open>2\<^sup>5\<^sup>3 + 4\<close>, outside the box, and the scale \<open>475.0\<close>;
  the centre \<open>2\<^sup>5\<^sup>3 + 2.5\<close> of the box, rounded to the float \<open>2\<^sup>5\<^sup>3 + 2\<close>, is sent to
  \<open>-950.0\<close>.
\<close>

theorem C3_counterexample:
  "round64 (2 ^ 1023) = Fin (2 ^ 1023) \<and> round64 (3 * 2 ^ 1022) = Fin (3 * 2 ^ 1022)
   \<and> parse_features ([], []) huge_pair
       = Inr ([(Num (PFloat (Fin (2 ^ 1023))), Num (PInt 0), ''A''),
               (Num (PFloat (Fin (3 * 2 ^ 1022))), Num (PInt 1), ''B'')], [])
   \<and> bounding_box [(Num (PFloat (Fin (2 ^ 1023))), Num (PInt 0), ''A''),
                 (Num (PFloat (Fin (3 * 2 ^ 1022))), Num (PInt 1), ''B'')] []
     = Inr \<lparr>x_min = Num (PFloat (Fin (2 ^ 1023))), x_max = Num (PFloat (Fin (3 * 2 ^ 1022))),
            y_min = Num (PInt 0), y_max = Num (PInt 1)\<rparr>
   \<and> build_transform
        \<lparr>x_min = Num (PFloat (Fin (2 ^ 1023))), x_max = Num (PFloat (Fin (3 * 2 ^ 1022))),
         y_min = Num (PInt 0), y_max = Num (PInt 1)\<rparr>
       = Inr \<lparr>x_shift = Num (PFloat PInf), x_scale = Num (PFloat (Fin (950 / 2 ^ 1022))),
              y_shift = Num (PFloat (Fin (1 / 2))), y_scale = Num (PFloat (Fin 950))\<rparr>
   \<and> transform_xy
        \<lparr>x_shift = Num (PFloat PInf), x_scale = Num (PFloat (Fin (950 / 2 ^ 1022))),
         y_shift = Num (PFloat (Fin (1 / 2))), y_scale = Num (PFloat (Fin 950))\<rparr>
        (Num (PFloat PInf), Num (PFloat (Fin (1 / 2))))
       = Inr (Num (PFloat NaN), Num (PFloat (Fin 0)))
   \<and> transform_xy
        \<lparr>x_shift = Num (PFloat PInf), x_scale = Num (PFloat (Fin (950 / 2 ^ 1022))),
         y_shift = Num (PFloat (Fin (1 / 2))), y_scale = Num (PFloat (Fin 950))\<rparr>
        (Num (PFloat (Fin (5 * 2 ^ 1021))), Num (PFloat (Fin (1 / 2))))
       = Inr (Num (PFloat NInf), Num (PFloat (Fin 0)))
   \<and> parse_features ([], []) tiny_pair
       = Inr ([(Num (PFloat (Fin 0)), Num (PInt 0), ''A''),
               (Num (PFloat (Fin least_float)), Num (PInt 1), ''B'')], [])
   \<and> bounding_box [(Num (PFloat (Fin 0)), Num (PInt 0), ''A''),
                 (Num (PFloat (Fin least_float)), Num (PInt 1), ''B'')] []
       = Inr \<lparr>x_min = Num (PFloat (Fin 0)), x_max = Num (PFloat (Fin least_float)),
              y_min = Num (PInt 0), y_max = Num (PInt 1)\<rparr>
   \<and> build_transform \<lparr>x_min = Num (PFloat (Fin 0)), x_max = Num (PFloat (Fin least_float)),
              y_min = Num (PInt 0), y_max = Num (PInt 1)\<rparr>
       = Inr \<lparr>x_shift = Num (PFloat (Fin 0)), x_scale = Num (PFloat PInf),
              y_shift = Num (PFloat (Fin (1 / 2))), y_scale = Num (PFloat (Fin 950))\<rparr>
   \<and> transform_xy \<lparr>x_shift = Num (PFloat (Fin 0)), x_scale = Num (PFloat PInf),
              y_shift = Num (PFloat (Fin (1 / 2))), y_scale = Num (PFloat (Fin 950))\<rparr>
        (float_of (centre_x \<lparr>x_min = Num (PFloat (Fin 0)), x_max = Num (PFloat (Fin least_float)),
              y_min = Num (PInt 0), y_max = Num (PInt 1)\<rparr>),
         float_of (centre_y \<lparr>x_min = Num (PFloat (Fin 0)), x_max = Num (PFloat (Fin least_float)),
              y_min = Num (PInt 0), y_max = Num (PInt 1)\<rparr>))
       = Inr (Num (PFloat NaN), Num (PFloat (Fin 0)))
   \<and> parse_features ([], []) mixed_pair
       = Inr ([(Num (PFloat (Fin 9007199254740994)), Num (PInt 0), ''A''),
               (Num (PInt 9007199254740995), Num (PInt 1), ''B'')], [])
   \<and> bounding_box [(Num (PFloat (Fin 9007199254740994)), Num (PInt 0), ''A''),
                 (Num (PInt 9007199254740995), Num (PInt 1), ''B'')] []
       = Inr \<lparr>x_min = Num (PFloat (Fin 9007199254740994)), x_max = Num (PInt 9007199254740995),
              y_min = Num (PInt 0), y_max = Num (PInt 1)\<rparr>
   \<and> build_transform \<lparr>x_min = Num (PFloat (Fin 9007199254740994)),
              x_max = Num (PInt 9007199254740995), y_min = Num (PInt 0), y_max = Num (PInt 1)\<rparr>
       = Inr \<lparr>x_shift = Num (PFloat (Fin 9007199254740996)), x_scale = Num (PFloat (Fin 475)),
              y_shift = Num (PFloat (Fin (1 / 2))), y_scale = Num (PFloat (Fin 950))\<rparr>
   \<and> transform_xy \<lparr>x_shift = Num (PFloat (Fin 9007199254740996)), x_scale = Num (PFloat (Fin 475)),
              y_shift = Num (PFloat (Fin (1 / 2))), y_scale = Num (PFloat (Fin 950))\<rparr>
        (float_of (centre_x \<lparr>x_min = Num (PFloat (Fin 9007199254740994)),
              x_max = Num (PInt 9007199254740995), y_min = Num (PInt 0), y_max = Num (PInt 1)\<rparr>),
         float_of (centre_y \<lparr>x_min = Num (PFloat (Fin 9007199254740994)),
              x_max = Num (PInt 9007199254740995), y_min = Num (PInt 0), y_max = Num (PInt 1)\<rparr>))
       = Inr (Num (PFloat (Fin (- 950))), Num (PFloat (Fin 0)))"
proof -
  have f: "round64 (2 ^ 1023) = Fin (2 ^ 1023)" "round64 (3 * 2 ^ 1022) = Fin (3 * 2 ^ 1022)"
    using round64_exact [of "2 ^ 52" 971] round64_exact [of "3 * 2 ^ 51" 971] by simp_all
  have p: "parse_features ([], []) huge_pair
       = Inr ([(Num (PFloat (Fin (2 ^ 1023))), Num (PInt 0), ''A''),
               (Num (PFloat (Fin (3 * 2 ^ 1022))), Num (PInt 1), ''B'')], [])"
    by (simp add: huge_pair_def parse_point_feature)
  have b: "bounding_box [(Num (PFloat (Fin (2 ^ 1023))), Num (PInt 0), ''A''),
                 (Num (PFloat (Fin (3 * 2 ^ 1022))), Num (PInt 1), ''B'')] []
     = Inr \<lparr>x_min = Num (PFloat (Fin (2 ^ 1023))), x_max = Num (PFloat (Fin (3 * 2 ^ 1022))),
            y_min = Num (PInt 0), y_max = Num (PInt 1)\<rparr>"
    by (simp add: bounding_box_def extend_box_def py_min_def py_max_def xy_def num_lt_def)
  have sx: "shift (Num (PFloat (Fin (3 * 2 ^ 1022)))) (Num (PFloat (Fin (2 ^ 1023))))
              = Inr (Num (PFloat PInf))"
    using huge_sum by (simp add: shift_def float_op_def)
  have kx: "scale (Num (PFloat (Fin (3 * 2 ^ 1022)))) (Num (PFloat (Fin (2 ^ 1023))))
              = Inr (Num (PFloat (Fin (950 / 2 ^ 1022))))"
    using huge_difference huge_scale by (simp add: scale_def extent_950 float_op_def)
  have sy: "shift (Num (PInt 1)) (Num (PInt 0)) = Inr (Num (PFloat (Fin (1 / 2))))"
    by (simp add: shift_def float_op_def)
  have ky: "scale (Num (PInt 1)) (Num (PInt 0)) = Inr (Num (PFloat (Fin 950)))"
    by (simp add: scale_def extent_950 float_op_def)
  have t: "build_transform
        \<lparr>x_min = Num (PFloat (Fin (2 ^ 1023))), x_max = Num (PFloat (Fin (3 * 2 ^ 1022))),
         y_min = Num (PInt 0), y_max = Num (PInt 1)\<rparr>
       = Inr \<lparr>x_shift = Num (PFloat PInf), x_scale = Num (PFloat (Fin (950 / 2 ^ 1022))),
              y_shift = Num (PFloat (Fin (1 / 2))), y_scale = Num (PFloat (Fin 950))\<rparr>"
    using sx kx sy ky by (simp add: build_transform_def)
  have c1: "transform_xy
        \<lparr>x_shift = Num (PFloat PInf), x_scale = Num (PFloat (Fin (950 / 2 ^ 1022))),
         y_shift = Num (PFloat (Fin (1 / 2))), y_scale = Num (PFloat (Fin 950))\<rparr>
        (Num (PFloat PInf), Num (PFloat (Fin (1 / 2))))
       = Inr (Num (PFloat NaN), Num (PFloat (Fin 0)))"
    by (simp add: transform_xy_def transform_coord_def float_op_def round64_zero)
  have c2: "transform_xy
        \<lparr>x_shift = Num (PFloat PInf), x_scale = Num (PFloat (Fin (950 / 2 ^ 1022))),
         y_shift = Num (PFloat (Fin (1 / 2))), y_scale = Num (PFloat (Fin 950))\<rparr>
        (Num (PFloat (Fin (5 * 2 ^ 1021))), Num (PFloat (Fin (1 / 2))))
       = Inr (Num (PFloat NInf), Num (PFloat (Fin 0)))"
    by (simp add: transform_xy_def transform_coord_def float_op_def round64_zero)
  have p3: "parse_features ([], []) tiny_pair
       = Inr ([(Num (PFloat (Fin 0)), Num (PInt 0), ''A''),
               (Num (PFloat (Fin least_float)), Num (PInt 1), ''B'')], [])"
    by (simp add: tiny_pair_def parse_point_feature)
  have c3: "transform_xy \<lparr>x_shift = Num (PFloat (Fin 0)), x_scale = Num (PFloat PInf),
              y_shift = Num (PFloat (Fin (1 / 2))), y_scale = Num (PFloat (Fin 950))\<rparr>
        (float_of (centre_x \<lparr>x_min = Num (PFloat (Fin 0)), x_max = Num (PFloat (Fin least_float)),
              y_min = Num (PInt 0), y_max = Num (PInt 1)\<rparr>),
         float_of (centre_y \<lparr>x_min = Num (PFloat (Fin 0)), x_max = Num (PFloat (Fin least_float)),
              y_min = Num (PInt 0), y_max = Num (PInt 1)\<rparr>))
       = Inr (Num (PFloat NaN), Num (PFloat (Fin 0)))"
    by (simp add: float_of_def centre_x_def centre_y_def round64_half_least_float
          transform_xy_def transform_coord_def float_op_def round64_zero)
  have p4: "parse_features ([], []) mixed_pair
       = Inr ([(Num (PFloat (Fin 9007199254740994)), Num (PInt 0), ''A''),
               (Num (PInt 9007199254740995), Num (PInt 1), ''B'')], [])"
    by (simp add: mixed_pair_def parse_point_feature)
  have c4: "transform_xy \<lparr>x_shift = Num (PFloat (Fin 9007199254740996)), x_scale = Num (PFloat (Fin 475)),
              y_shift = Num (PFloat (Fin (1 / 2))), y_scale = Num (PFloat (Fin 950))\<rparr>
        (float_of (centre_x \<lparr>x_min = Num (PFloat (Fin 9007199254740994)),
              x_max = Num (PInt 9007199254740995), y_min = Num (PInt 0), y_max = Num (PInt 1)\<rparr>),
         float_of (centre_y \<lparr>x_min = Num (PFloat (Fin 9007199254740994)),
              x_max = Num (PInt 9007199254740995), y_min = Num (PInt 0), y_max = Num (PInt 1)\<rparr>))
       = Inr (Num (PFloat (Fin (- 950))), Num (PFloat (Fin 0)))"
    by (simp add: float_of_def centre_x_def centre_y_def round64_centre_mixed
          transform_xy_def transform_coord_def float_op_def round64_zero)
  show ?thesis
    using f p b t c1 c2 p3 run_tiny_pair c3 p4 run_mixed_pair c4 by (simp only: simp_thms)
qed

text \<open>
  C3, amended. For an input whose features are all accepted, with at least one point,
  whose coordinates are pairs of numbers, each an int or a finite float, when the two
  bounds of each axis are of the same kind or exact and the shifts and the scales built
  from the box are finite floats: each shift is the float nearest to the centre of the
  box on its axis, \<open>(max + min) / 2\<close>, and the transform sends the centre of the box,
  each coordinate rounded to the nearest float, to \<open>(0.0, 0.0)\<close> exactly. (A box of zero
  width or height has no transform: the division raises.)
\<close>

theorem C3_center_to_origin:
  assumes "parse_features ([], []) features = Inr (points, polygons)"
    and "points \<noteq> []"
    and "\<forall>p \<in> set (coords points polygons). json_pair p"
    and "bounding_box points polygons = Inr b"
    and "same_kind_or_exact (x_max b) (x_min b)"
    and "same_kind_or_exact (y_max b) (y_min b)"
    and "build_transform b = Inr t"
    and "x_shift t = Num (PFloat (Fin sx))" and "x_scale t = Num (PFloat (Fin kx))"
    and "y_shift t = Num (PFloat (Fin sy))" and "y_scale t = Num (PFloat (Fin ky))"
  shows "x_shift t = float_of (centre_x b) \<and> y_shift t = float_of (centre_y b)
       \<and> transform_xy t (float_of (centre_x b), float_of (centre_y b))
           = Inr (Num (PFloat (Fin 0)), Num (PFloat (Fin 0)))"
proof -
  have "\<forall>p \<in> set (coords points polygons). numeric p"
    using assms(3) json_pair_numeric by blast
  then have "\<exists>b'. bounding_box points polygons = Inr b' \<and> box_of (coords points polygons) b'"
    using assms(2) by (intro bounding_box_ok)
  then have "box_of (coords points polygons) b" using assms(4) by auto
  then obtain xl xh yl yh
    where b: "b = \<lparr>x_min = Num xl, x_max = Num xh, y_min = Num yl, y_max = Num yh\<rparr>"
      and j: "json_number xl" "json_number xh" "json_number yl" "json_number yh"
    using box_of_json assms(3) by blast
  have s: "shift (Num xh) (Num xl) = Inr (x_shift t)" "shift (Num yh) (Num yl) = Inr (y_shift t)"
    using assms(7) by (auto simp add: build_transform_def b split: sum.splits)
  have x: "round64 ((val xh + val xl) / 2) = Fin sx"
    using j(2,1) assms(5) s(1) unfolding assms(8) b by (intro shift_nearest) simp_all
  have y: "round64 ((val yh + val yl) / 2) = Fin sy"
    using j(4,3) assms(6) s(2) unfolding assms(10) b by (intro shift_nearest) simp_all
  have cx: "float_of (centre_x b) = Num (PFloat (Fin sx))"
    using x by (simp add: float_of_def centre_x_def b)
  have cy: "float_of (centre_y b) = Num (PFloat (Fin sy))"
    using y by (simp add: float_of_def centre_y_def b)
  show ?thesis
    unfolding cx cy using assms(8-11)
    by (simp add: transform_xy_def transform_coord_shift)
qed

theorem C3_center_to_origin_witness:
  "parse_features ([], []) scenario =
     Inr ([(Num (PInt 10), Num (PInt 10), ''A'')],
          [[(Num (PInt 0), Num (PInt 0)), (Num (PInt 20), Num (PInt 0)),
            (Num (PInt 20), Num (PInt 20))]])
   \<and> list_all json_pair (coords [(Num (PInt 10), Num (PInt 10), ''A'')]
          [[(Num (PInt 0), Num (PInt 0)), (Num (PInt 20), Num (PInt 0)),
            (Num (PInt 20), Num (PInt 20))]])
   \<and> bounding_box [(Num (PInt 10), Num (PInt 10), ''A'')]
          [[(Num (PInt 0), Num (PInt 0)), (Num (PInt 20), Num (PInt 0)),
            (Num (PInt 20), Num (PInt 20))]]
     = Inr \<lparr>x_min = Num (PInt 0), x_max = Num (PInt 20),
            y_min = Num (PInt 0), y_max = Num (PInt 20)\<rparr>
   \<and> same_kind_or_exact (Num (PInt 20)) (Num (PInt 0))
   \<and> build_transform \<lparr>x_min = Num (PInt 0), x_max = Num (PInt 20),
                       y_min = Num (PInt 0), y_max = Num (PInt 20)\<rparr>
       = Inr \<lparr>x_shift = Num (PFloat (Fin 10)), x_scale = Num (PFloat (Fin (95 / 2))),
              y_shift = Num (PFloat (Fin 10)), y_scale = Num (PFloat (Fin (95 / 2)))\<rparr>
   \<and> centre_x \<lparr>x_min = Num (PInt 0), x_max = Num (PInt 20),
                 y_min = Num (PInt 0), y_max = Num (PInt 20)\<rparr> = 10
   \<and> centre_y \<lparr>x_min = Num (PInt 0), x_max = Num (PInt 20),
                 y_min = Num (PInt 0), y_max = Num (PInt 20)\<rparr> = 10
   \<and> float_of 10 = Num (PFloat (Fin 10))
   \<and> transform_xy \<lparr>x_shift = Num (PFloat (Fin 10)), x_scale = Num (PFloat (Fin (95 / 2))),
                    y_shift = Num (PFloat (Fin 10)), y_scale = Num (PFloat (Fin (95 / 2)))\<rparr>
        (float_of 10, float_of 10)
       = Inr (Num (PFloat (Fin 0)), Num (PFloat (Fin 0)))
   \<and> parse_features ([], []) close_pair
       = Inr ([(Num (PFloat (Fin 1)), Num (PInt 0), ''A''),
               (Num (PFloat (Fin next_after_one)), Num (PInt 1), ''B'')], [])
   \<and> list_all json_pair (coords [(Num (PFloat (Fin 1)), Num (PInt 0), ''A''),
               (Num (PFloat (Fin next_after_one)), Num (PInt 1), ''B'')] [])
   \<and> bounding_box [(Num (PFloat (Fin 1)), Num (PInt 0), ''A''),
                 (Num (PFloat (Fin next_after_one)), Num (PInt 1), ''B'')] []
       = Inr \<lparr>x_min = Num (PFloat (Fin 1)), x_max = Num (PFloat (Fin next_after_one)),
              y_min = Num (PInt 0), y_max = Num (PInt 1)\<rparr>
   \<and> same_kind_or_exact (Num (PFloat (Fin next_after_one))) (Num (PFloat (Fin 1)))
   \<and> same_kind_or_exact (Num (PInt 1)) (Num (PInt 0))
   \<and> build_transform \<lparr>x_min = Num (PFloat (Fin 1)), x_max = Num (PFloat (Fin next_after_one)),
              y_min = Num (PInt 0), y_max = Num (PInt 1)\<rparr>
       = Inr \<lparr>x_shift = Num (PFloat (Fin 1)),
              x_scale = Num (PFloat (Fin (950 / (next_after_one - 1)))),
              y_shift = Num (PFloat (Fin (1 / 2))), y_scale = Num (PFloat (Fin 950))\<rparr>
   \<and> \<not> exact64 (centre_x \<lparr>x_min = Num (PFloat (Fin 1)), x_max = Num (PFloat (Fin next_after_one)),
              y_min = Num (PInt 0), y_max = Num (PInt 1)\<rparr>)
   \<and> float_of (centre_x \<lparr>x_min = Num (PFloat (Fin 1)), x_max = Num (PFloat (Fin next_after_one)),
              y_min = Num (PInt 0), y_max = Num (PInt 1)\<rparr>) = Num (PFloat (Fin 1))
   \<and> transform_xy \<lparr>x_shift = Num (PFloat (Fin 1)),
              x_scale = Num (PFloat (Fin (950 / (next_after_one - 1)))),
              y_shift = Num (PFloat (Fin (1 / 2))), y_scale = Num (PFloat (Fin 950))\<rparr>
        (float_of (centre_x \<lparr>x_min = Num (PFloat (Fin 1)), x_max = Num (PFloat (Fin next_after_one)),
              y_min = Num (PInt 0), y_max = Num (PInt 1)\<rparr>),
         float_of (centre_y \<lparr>x_min = Num (PFloat (Fin 1)), x_max = Num (PFloat (Fin next_after_one)),
              y_min = Num (PInt 0), y_max = Num (PInt 1)\<rparr>))
       = Inr (Num (PFloat (Fin 0)), Num (PFloat (Fin 0)))"
proof -
  define points where "points = [(Num (PInt 10), Num (PInt 10), ''A'')]"
  define polygons where "polygons = [[(Num (PInt 0), Num (PInt 0)), (Num (PInt 20), Num (PInt 0)),
            (Num (PInt 20), Num (PInt 20))]]"
  define b where "b = \<lparr>x_min = Num (PInt 0), x_max = Num (PInt 20),
                       y_min = Num (PInt 0), y_max = Num (PInt 20)\<rparr>"
  define t where "t = \<lparr>x_shift = Num (PFloat (Fin 10)), x_scale = Num (PFloat (Fin (95 / 2))),
                       y_shift = Num (PFloat (Fin 10)), y_scale = Num (PFloat (Fin (95 / 2)))\<rparr>"
  have 1: "parse_features ([], []) scenario = Inr (points, polygons)"
    unfolding points_def polygons_def by (rule parse_scenario)
  have 2: "points \<noteq> []" by (simp add: points_def)
  have 3: "\<forall>p \<in> set (coords points polygons). json_pair p"
    by (simp add: coords_def xy_def json_pair_def points_def polygons_def)
  have 4: "bounding_box points polygons = Inr b"
    unfolding points_def polygons_def b_def by (rule bbox_scenario)
  have 5: "same_kind_or_exact (x_max b) (x_min b)" "same_kind_or_exact (y_max b) (y_min b)"
    by (simp_all add: b_def)
  have 6: "build_transform b = Inr t" unfolding b_def t_def by (rule transform_scenario)
  have 7: "x_shift t = Num (PFloat (Fin 10))" "x_scale t = Num (PFloat (Fin (95 / 2)))"
    "y_shift t = Num (PFloat (Fin 10))" "y_scale t = Num (PFloat (Fin (95 / 2)))"
    by (simp_all add: t_def)
  have c: "centre_x b = 10" "centre_y b = 10" by (simp_all add: centre_x_def centre_y_def b_def)
  have f: "float_of 10 = Num (PFloat (Fin 10))" by (simp add: float_of_def)
  have l: "list_all json_pair (coords points polygons)" using 3 by (simp only: list_all_iff)
  have s: "same_kind_or_exact (Num (PInt 20)) (Num (PInt 0))" by simp
  have r1: "transform_xy t (float_of 10, float_of 10)
              = Inr (Num (PFloat (Fin 0)), Num (PFloat (Fin 0)))"
    using C3_center_to_origin [OF 1 2 3 4 5 6 7] by (simp add: c)
  define points' where "points' = [(Num (PFloat (Fin 1)), Num (PInt 0), ''A''),
               (Num (PFloat (Fin next_after_one)), Num (PInt 1), ''B'')]"
  define b' where "b' = \<lparr>x_min = Num (PFloat (Fin 1)), x_max = Num (PFloat (Fin next_after_one)),
              y_min = Num (PInt 0), y_max = Num (PInt 1)\<rparr>"
  define t' where "t' = \<lparr>x_shift = Num (PFloat (Fin 1)),
              x_scale = Num (PFloat (Fin (950 / (next_after_one - 1)))),
              y_shift = Num (PFloat (Fin (1 / 2))), y_scale = Num (PFloat (Fin 950))\<rparr>"
  have q1: "parse_features ([], []) close_pair = Inr (points', [])"
    by (simp add: close_pair_def parse_point_feature points'_def)
  have q2: "points' \<noteq> []" by (simp add: points'_def)
  have q3: "\<forall>p \<in> set (coords points' []). json_pair p"
    by (simp add: coords_def xy_def json_pair_def points'_def exact64_def round64_next_after_one)
  have q4: "bounding_box points' [] = Inr b'"
    unfolding points'_def b'_def by (rule run_close_pair)
  have s': "same_kind_or_exact (Num (PFloat (Fin next_after_one))) (Num (PFloat (Fin 1)))"
    "same_kind_or_exact (Num (PInt 1)) (Num (PInt 0))"
    by (simp_all add: exact64_def round64_next_after_one)
  have q5: "same_kind_or_exact (x_max b') (x_min b')" "same_kind_or_exact (y_max b') (y_min b')"
    using s' by (simp_all add: b'_def)
  have q6: "build_transform b' = Inr t'" unfolding b'_def t'_def by (rule run_close_pair)
  have q7: "x_shift t' = Num (PFloat (Fin 1))"
    "x_scale t' = Num (PFloat (Fin (950 / (next_after_one - 1))))"
    "y_shift t' = Num (PFloat (Fin (1 / 2)))" "y_scale t' = Num (PFloat (Fin 950))"
    by (simp_all add: t'_def)
  have l': "list_all json_pair (coords points' [])" using q3 by (simp only: list_all_iff)
  have cx: "centre_x b' = (next_after_one + 1) / 2" by (simp add: centre_x_def b'_def)
  have ne: "\<not> exact64 (centre_x b')"
    using next_after_one_gt by (simp add: cx exact64_def round64_centre_close)
  have fc: "float_of (centre_x b') = Num (PFloat (Fin 1))"
    by (simp add: cx float_of_def round64_centre_close)
  have r2: "transform_xy t' (float_of (centre_x b'), float_of (centre_y b'))
              = Inr (Num (PFloat (Fin 0)), Num (PFloat (Fin 0)))"
    using C3_center_to_origin [OF q1 q2 q3 q4 q5 q6 q7] by simp
  show ?thesis
    using 1 l 4 s 6 c f r1 q1 l' q4 s' q6 ne fc r2
    unfolding points_def polygons_def b_def t_def points'_def b'_def t'_def
    by (simp only: simp_thms)
qed

text \<open>
  C4, as stated, fails: Python's float division raises on a zero divisor. A single
  point has a box of zero width, and the run ends with \<^verbatim>\<open>ZeroDivisionError\<close> at
  \<^verbatim>\<open>x_scale\<close>, before anything is printed.
\<close>

theorem C4_counterexample:
  "parse_features ([], []) lone_point = Inr ([(Num (PInt 10), Num (PInt 10), ''A'')], [])
   \<and> bounding_box [(Num (PInt 10), Num (PInt 10), ''A'')] []
       = Inr \<lparr>x_min = Num (PInt 10), x_max = Num (PInt 10),
              y_min = Num (PInt 10), y_max = Num (PInt 10)\<rparr>
   \<and> main lone_point = ([], Some ZeroDivisionError)"
proof -
  have p: "parse_features ([], []) lone_point = Inr ([(Num (PInt 10), Num (PInt 10), ''A'')], [])"
    by (simp add: lone_point_def parse_point_feature int_pair_def)
  have b: "bounding_box [(Num (PInt 10), Num (PInt 10), ''A'')] []
       = Inr \<lparr>x_min = Num (PInt 10), x_max = Num (PInt 10),
              y_min = Num (PInt 10), y_max = Num (PInt 10)\<rparr>"
    by (simp add: run_defs)
  have "main lone_point = ([], Some ZeroDivisionError)"
    unfolding main_def p by (simp add: run_defs)
  then show ?thesis using p b by simp
qed

text \<open>
  C4, amended. For an input whose features are all accepted, with at least one point,
  whose coordinates are pairs of numbers, each an int or a finite float, and whose
  bounding box has equal bounds on the \<open>x\<close> axis or on the \<open>y\<close> axis, the run prints
  nothing and ends with \<^verbatim>\<open>ZeroDivisionError\<close> or with \<^verbatim>\<open>OverflowError\<close>; it ends with
  \<^verbatim>\<open>ZeroDivisionError\<close> when every int among the coordinates has a magnitude below
  \<open>2\<^sup>1\<^sup>0\<^sup>2\<^sup>2\<close>. (\<^verbatim>\<open>OverflowError\<close> is the conversion to a float of an int, or of a sum or a
  difference of two ints, that is too large: one point with the abscissa \<open>2\<^sup>1\<^sup>0\<^sup>2\<^sup>3\<close> ends
  the run in this way at \<^verbatim>\<open>x_shift\<close>. The coordinates have to be finite: by
  \<open>run_infinite_pair\<close>, two points with the abscissa \<^verbatim>\<open>inf\<close> have a box of zero width and
  are printed, with \<^verbatim>\<open>nan\<close> as their abscissa.)
\<close>

theorem C4_zero_range_aborts:
  assumes "parse_features ([], []) features = Inr (points, polygons)"
    and "points \<noteq> []"
    and "\<forall>p \<in> set (coords points polygons). json_pair p"
    and "bounding_box points polygons = Inr b"
    and "py_eq (x_max b) (x_min b) \<or> py_eq (y_max b) (y_min b)"
  shows "(main features = ([], Some ZeroDivisionError) \<or> main features = ([], Some OverflowError))
       \<and> ((\<forall>p \<in> set (coords points polygons). in_range_pair p)
            \<longrightarrow> main features = ([], Some ZeroDivisionError))"
proof -
  have "\<forall>p \<in> set (coords points polygons). numeric p"
    using assms(3) json_pair_numeric by blast
  then have "\<exists>b'. bounding_box points polygons = Inr b' \<and> box_of (coords points polygons) b'"
    using assms(2) by (intro bounding_box_ok)
  then have bo: "box_of (coords points polygons) b"
    using assms(4) by auto
  then obtain xl xh yl yh
    where b: "b = \<lparr>x_min = Num xl, x_max = Num xh, y_min = Num yl, y_max = Num yh\<rparr>"
      and j: "json_number xl" "json_number xh" "json_number yl" "json_number yh"
    using box_of_json assms(3) by blast
  have d: "val xh = val xl \<or> val yh = val yl"
    using assms(5) num_eq_val [OF j(2) j(1)] num_eq_val [OF j(4) j(3)] by (auto simp add: b)
  have "build_transform b = Inl ZeroDivisionError \<or> build_transform b = Inl OverflowError"
    unfolding b using j d by (rule zero_range_transform)
  then have 1: "main features = ([], Some ZeroDivisionError) \<or> main features = ([], Some OverflowError)"
    using assms(1,4) by (auto simp add: main_def)
  have 2: "main features = ([], Some ZeroDivisionError)"
    if ir: "\<forall>p \<in> set (coords points polygons). in_range_pair p"
  proof -
    obtain xl' xh' yl' yh'
      where b': "b = \<lparr>x_min = Num xl', x_max = Num xh', y_min = Num yl', y_max = Num yh'\<rparr>"
        and r': "in_range xl'" "in_range xh'" "in_range yl'" "in_range yh'"
      using box_of_in_range [OF bo ir] by blast
    have r: "in_range xl" "in_range xh" "in_range yl" "in_range yh"
      using b b' r' by simp_all
    obtain sx where sx: "shift (Num xh) (Num xl) = Inr (Num (PFloat sx))"
      using shift_ok [OF r(2) r(1)] by blast
    obtain sy where sy: "shift (Num yh) (Num yl) = Inr (Num (PFloat sy))"
      using shift_ok [OF r(4) r(3)] by blast
    have "build_transform b = Inl ZeroDivisionError"
    proof (cases "val xh = val xl")
      case True
      then have "scale (Num xh) (Num xl) = Inl ZeroDivisionError"
        using scale_zero_width [OF j(2) j(1)] by simp
      then show ?thesis using sx by (simp add: build_transform_def b)
    next
      case False
      then have "val yh = val yl" using d by simp
      then have y: "scale (Num yh) (Num yl) = Inl ZeroDivisionError"
        using scale_zero_width [OF j(4) j(3)] by simp
      show ?thesis using scale_cases [OF r(2) r(1)] sx sy y
        by (auto simp add: build_transform_def b)
    qed
    then show ?thesis using assms(1,4) by (simp add: main_def)
  qed
  show ?thesis using 1 2 by blast
qed

theorem C4_zero_range_aborts_witness:
  "parse_features ([], []) vertical_pair
     = Inr ([(Num (PInt 10), Num (PInt 5), ''A''), (Num (PInt 10), Num (PInt 7), ''B'')], [])
   \<and> [(Num (PInt 10), Num (PInt 5), ''A''), (Num (PInt 10), Num (PInt 7), ''B'')] \<noteq> []
   \<and> list_all json_pair
        (coords [(Num (PInt 10), Num (PInt 5), ''A''), (Num (PInt 10), Num (PInt 7), ''B'')] [])
   \<and> list_all in_range_pair
        (coords [(Num (PInt 10), Num (PInt 5), ''A''), (Num (PInt 10), Num (PInt 7), ''B'')] [])
   \<and> bounding_box [(Num (PInt 10), Num (PInt 5), ''A''), (Num (PInt 10), Num (PInt 7), ''B'')] []
       = Inr \<lparr>x_min = Num (PInt 10), x_max = Num (PInt 10),
              y_min = Num (PInt 5), y_max = Num (PInt 7)\<rparr>
   \<and> py_eq (Num (PInt 10)) (Num (PInt 10))
   \<and> main vertical_pair = ([], Some ZeroDivisionError)
   \<and> parse_features ([], []) huge_point = Inr ([(Num (PInt half_beyond), Num (PInt 0), ''A'')], [])
   \<and> list_all json_pair (coords [(Num (PInt half_beyond), Num (PInt 0), ''A'')] [])
   \<and> bounding_box [(Num (PInt half_beyond), Num (PInt 0), ''A'')] []
       = Inr \<lparr>x_min = Num (PInt half_beyond), x_max = Num (PInt half_beyond),
              y_min = Num (PInt 0), y_max = Num (PInt 0)\<rparr>
   \<and> py_eq (Num (PInt half_beyond)) (Num (PInt half_beyond))
   \<and> main huge_point = ([], Some OverflowError)"
proof -
  have p: "parse_features ([], []) vertical_pair
     = Inr ([(Num (PInt 10), Num (PInt 5), ''A''), (Num (PInt 10), Num (PInt 7), ''B'')], [])"
    by (simp add: vertical_pair_def parse_point_feature int_pair_def)
  have n: "[(Num (PInt 10), Num (PInt 5), ''A''), (Num (PInt 10), Num (PInt 7), ''B'')] \<noteq> []"
    by simp
  have j: "\<forall>p \<in> set (coords [(Num (PInt 10), Num (PInt 5), ''A''),
                               (Num (PInt 10), Num (PInt 7), ''B'')] []). json_pair p"
    by (simp add: coords_def xy_def json_pair_def)
  have r: "\<forall>p \<in> set (coords [(Num (PInt 10), Num (PInt 5), ''A''),
                               (Num (PInt 10), Num (PInt 7), ''B'')] []). in_range_pair p"
    by (simp add: coords_def xy_def in_range_pair_def)
  have b: "bounding_box [(Num (PInt 10), Num (PInt 5), ''A''), (Num (PInt 10), Num (PInt 7), ''B'')] []
       = Inr \<lparr>x_min = Num (PInt 10), x_max = Num (PInt 10),
              y_min = Num (PInt 5), y_max = Num (PInt 7)\<rparr>"
    by (simp add: run_defs)
  have e: "py_eq (x_max \<lparr>x_min = Num (PInt 10), x_max = Num (PInt 10),
                          y_min = Num (PInt 5), y_max = Num (PInt 7)\<rparr>)
                 (x_min \<lparr>x_min = Num (PInt 10), x_max = Num (PInt 10),
                          y_min = Num (PInt 5), y_max = Num (PInt 7)\<rparr>)
           \<or> py_eq (y_max \<lparr>x_min = Num (PInt 10), x_max = Num (PInt 10),
                          y_min = Num (PInt 5), y_max = Num (PInt 7)\<rparr>)
                 (y_min \<lparr>x_min = Num (PInt 10), x_max = Num (PInt 10),
                          y_min = Num (PInt 5), y_max = Num (PInt 7)\<rparr>)"
    by simp
  have lj: "list_all json_pair
        (coords [(Num (PInt 10), Num (PInt 5), ''A''), (Num (PInt 10), Num (PInt 7), ''B'')] [])"
    using j by (simp only: list_all_iff)
  have lr: "list_all in_range_pair
        (coords [(Num (PInt 10), Num (PInt 5), ''A''), (Num (PInt 10), Num (PInt 7), ''B'')] [])"
    using r by (simp only: list_all_iff)
  have m: "main vertical_pair = ([], Some ZeroDivisionError)"
    using C4_zero_range_aborts [OF p n j b e] r by blast
  have p2: "parse_features ([], []) huge_point
              = Inr ([(Num (PInt half_beyond), Num (PInt 0), ''A'')], [])"
    by (simp add: huge_point_def parse_point_feature int_pair_def)
  have j2: "list_all json_pair (coords [(Num (PInt half_beyond), Num (PInt 0), ''A'')] [])"
    by (simp add: coords_def xy_def json_pair_def)
  have b2: "bounding_box [(Num (PInt half_beyond), Num (PInt 0), ''A'')] []
       = Inr \<lparr>x_min = Num (PInt half_beyond), x_max = Num (PInt half_beyond),
              y_min = Num (PInt 0), y_max = Num (PInt 0)\<rparr>"
    by (simp add: run_defs)
  have e2: "py_eq (Num (PInt half_beyond)) (Num (PInt half_beyond))" by simp
  have e1: "py_eq (Num (PInt 10)) (Num (PInt 10))" by simp
  show ?thesis using p n lj lr b e1 m p2 j2 b2 e2 run_huge_point by (simp only: simp_thms)
qed

text \<open>
  C5. When the features loop ends with an empty list of points, whatever polygons it
  has collected, \<^verbatim>\<open>points[0]\<close> raises \<^verbatim>\<open>IndexError\<close> and the run ends before anything is
  printed.
\<close>

theorem C5_no_points_crash:
  assumes "parse_features ([], []) features = Inr ([], polygons)"
  shows "main features = ([], Some IndexError)"
  using assms by (simp add: main_def bounding_box_def)

theorem C5_no_points_crash_witness:
  "parse_features ([], []) [polygon_feature triangle]
     = Inr ([], [[(Num (PInt 0), Num (PInt 0)), (Num (PInt 20), Num (PInt 0)),
                  (Num (PInt 20), Num (PInt 20))]])
   \<and> main [polygon_feature triangle] = ([], Some IndexError)"
proof -
  have p: "parse_features ([], []) [polygon_feature triangle]
     = Inr ([], [[(Num (PInt 0), Num (PInt 0)), (Num (PInt 20), Num (PInt 0)),
                  (Num (PInt 20), Num (PInt 20))]])"
    by (simp add: parse_triangle)
  show ?thesis using p C5_no_points_crash [OF p] by simp
qed

text \<open>
  C6, as stated, fails: the script reads \<^verbatim>\<open>geometry['coordinates']\<close> before it looks at
  the type, so a geometry collection, which has no such member, ends the run with
  \<^verbatim>\<open>KeyError: 'coordinates'\<close>, a message that does not name the type.
\<close>

theorem C6_counterexample:
  "geometry_type (geometry geometry_collection) \<noteq> ''Point''
   \<and> geometry_type (geometry geometry_collection) \<noteq> ''Polygon''
   \<and> main [geometry_collection] = ([], Some (KeyError ''coordinates''))"
  by (simp add: geometry_collection_def main_def parse_feature_def)

text \<open>
  C6, amended. When the features before it are accepted, a feature whose geometry has
  coordinates and whose type is neither \<^verbatim>\<open>Point\<close> nor \<^verbatim>\<open>Polygon\<close> ends the run, before
  anything is printed, with an \<^verbatim>\<open>Exception\<close> whose message is
  \<^verbatim>\<open>Unexpected geometry type: \<close> followed by the type.
\<close>

theorem C6_unexpected_geometry_type:
  assumes "parse_features ([], []) pre = Inr acc"
    and "coordinates (geometry f) = Some cs"
    and "geometry_type (geometry f) \<noteq> ''Point''"
    and "geometry_type (geometry f) \<noteq> ''Polygon''"
  shows "main (pre @ f # post) =
           ([], Some (Exception (''Unexpected geometry type: '' @ geometry_type (geometry f))))"
  using assms by (simp add: main_def parse_features_append parse_feature_def)

theorem C6_unexpected_geometry_type_witness:
  "parse_features ([], []) [point_feature ''A'' (int_pair 10 10)]
     = Inr ([(Num (PInt 10), Num (PInt 10), ''A'')], [])
   \<and> coordinates (geometry line_string) = Some (Arr [int_pair 0 0, int_pair 1 1])
   \<and> geometry_type (geometry line_string) \<noteq> ''Point''
   \<and> geometry_type (geometry line_string) \<noteq> ''Polygon''
   \<and> main ([point_feature ''A'' (int_pair 10 10)] @ line_string # [polygon_feature triangle])
       = ([], Some (Exception ''Unexpected geometry type: LineString''))"
proof -
  have 1: "parse_features ([], []) [point_feature ''A'' (int_pair 10 10)]
     = Inr ([(Num (PInt 10), Num (PInt 10), ''A'')], [])"
    by (simp add: parse_point_feature int_pair_def)
  have 2: "coordinates (geometry line_string) = Some (Arr [int_pair 0 0, int_pair 1 1])"
    by (simp add: line_string_def)
  have 3: "geometry_type (geometry line_string) \<noteq> ''Point''"
    by (simp add: line_string_def)
  have 4: "geometry_type (geometry line_string) \<noteq> ''Polygon''"
    by (simp add: line_string_def)
  have "geometry_type (geometry line_string) = ''LineString''" by (simp add: line_string_def)
  then show ?thesis
    using 1 2 3 4 C6_unexpected_geometry_type [OF 1 2 3 4, of "[polygon_feature triangle]"]
    by simp
qed

text \<open>
  C7, as stated, fails: the script counts the coordinate pairs of the ring and never
  compares vertices. The ring of four equal pairs is accepted, its three retained
  vertices are printed, and the run ends normally.
\<close>

theorem C7_counterexample:
  "parse_features ([], []) [point_feature ''A'' (int_pair 4 4), polygon_feature collapsed_ring]
     = Inr ([(Num (PInt 4), Num (PInt 4), ''A'')],
            [[(Num (PInt 0), Num (PInt 0)), (Num (PInt 0), Num (PInt 0)),
              (Num (PInt 0), Num (PInt 0))]])
   \<and> main [point_feature ''A'' (int_pair 4 4), polygon_feature collapsed_ring]
     = ([PointLine ''A'' (Num (PFloat (Fin 475))) (Num (PFloat (Fin 475))),
         PolygonOpen,
         VertexLine (Num (PFloat (Fin (- 475)))) (Num (PFloat (Fin (- 475)))),
         VertexLine (Num (PFloat (Fin (- 475)))) (Num (PFloat (Fin (- 475)))),
         VertexLine (Num (PFloat (Fin (- 475)))) (Num (PFloat (Fin (- 475)))),
         PolygonClose], None)"
proof -
  have p: "parse_features ([], []) [point_feature ''A'' (int_pair 4 4), polygon_feature collapsed_ring]
     = Inr ([(Num (PInt 4), Num (PInt 4), ''A'')],
            [[(Num (PInt 0), Num (PInt 0)), (Num (PInt 0), Num (PInt 0)),
              (Num (PInt 0), Num (PInt 0))]])"
    by (simp add: parse_point_feature parse_polygon_feature int_pair_def collapsed_ring_def)
  show ?thesis unfolding main_def p by (simp add: run_defs)
qed

text \<open>
  C7, amended. A polygon whose single ring has at least four entries, each with at least
  two components, the first equal to the last, is accepted with one vertex per entry but
  the last, however few of them are distinct; a ring of fewer than four entries fails
  the assertion.
\<close>

theorem C7_count_only:
  assumes "geometry_type (geometry f) = ''Polygon''"
    and "coordinates (geometry f) = Some (Arr [Arr ring])"
  shows "(4 \<le> length ring \<and> py_eq (hd ring) (last ring) \<and> (\<forall>v \<in> set (butlast ring). two_or_more v)
            \<longrightarrow> (\<exists>vs. parse_feature (pts, pgs) f = Inr (pts, pgs @ [vs]) \<and> length vs = length ring - 1))
       \<and> (length ring < 4 \<longrightarrow> parse_feature (pts, pgs) f = Inl AssertionError)"
  using assms by (auto simp add: parse_feature_def parse_polygon_accept) (simp add: parse_polygon_def)

theorem C7_count_only_witness:
  "geometry_type (geometry (polygon_feature collapsed_ring)) = ''Polygon''
   \<and> coordinates (geometry (polygon_feature collapsed_ring)) = Some (Arr [Arr collapsed_ring])
   \<and> 4 \<le> length collapsed_ring \<and> py_eq (hd collapsed_ring) (last collapsed_ring)
   \<and> list_all two_or_more (butlast collapsed_ring)
   \<and> (\<exists>vs. parse_feature ([], []) (polygon_feature collapsed_ring) = Inr ([], [] @ [vs])
          \<and> length vs = length collapsed_ring - 1)
   \<and> geometry_type (geometry (polygon_feature short_ring)) = ''Polygon''
   \<and> coordinates (geometry (polygon_feature short_ring)) = Some (Arr [Arr short_ring])
   \<and> length short_ring < 4
   \<and> parse_feature ([], []) (polygon_feature short_ring) = Inl AssertionError"
proof -
  have a: "geometry_type (geometry (polygon_feature collapsed_ring)) = ''Polygon''"
    "coordinates (geometry (polygon_feature collapsed_ring)) = Some (Arr [Arr collapsed_ring])"
    "geometry_type (geometry (polygon_feature short_ring)) = ''Polygon''"
    "coordinates (geometry (polygon_feature short_ring)) = Some (Arr [Arr short_ring])"
    by (simp_all add: polygon_feature_def)
  have b: "4 \<le> length collapsed_ring" "py_eq (hd collapsed_ring) (last collapsed_ring)"
    "\<forall>v \<in> set (butlast collapsed_ring). two_or_more v" "length short_ring < 4"
    by (simp_all add: collapsed_ring_def short_ring_def int_pair_def)
  have c: "list_all two_or_more (butlast collapsed_ring)"
    using b(3) by (simp only: list_all_iff)
  show ?thesis
    using a b c C7_count_only [OF a(1,2), of "[]" "[]"] C7_count_only [OF a(3,4), of "[]" "[]"]
    by blast
qed

text \<open>
  C8, as stated, fails when an exception cuts a block. Between two points whose
  abscissas are \<^verbatim>\<open>-inf\<close> and \<^verbatim>\<open>inf\<close> (so that the shift is \<^verbatim>\<open>nan\<close> and the scale \<open>0.0\<close>), the
  ring \<^verbatim>\<open>[[0,0],[2**1024,0],[0,1],[0,0]]\<close> of four entries is accepted with three vertices;
  its block is opened and its first vertex printed, then \<^verbatim>\<open>x - x_shift\<close> raises
  \<^verbatim>\<open>OverflowError\<close> on the second vertex: the block has one vertex line and no closing
  line.
\<close>

theorem C8_counterexample:
  "parse_features ([], []) cut_block
     = Inr ([(Num (PFloat NInf), Num (PInt 0), ''A''), (Num (PFloat PInf), Num (PInt 1), ''B'')],
            [[(Num (PInt 0), Num (PInt 0)), (Num (PInt beyond_float), Num (PInt 0)),
              (Num (PInt 0), Num (PInt 1))]])
   \<and> main cut_block
     = ([PointLine ''A'' (Num (PFloat NaN)) (Num (PFloat (Fin (- 475)))),
         PointLine ''B'' (Num (PFloat NaN)) (Num (PFloat (Fin 475))),
         PolygonOpen,
         VertexLine (Num (PFloat NaN)) (Num (PFloat (Fin (- 475))))], Some OverflowError)"
proof -
  have p: "parse_features ([], []) cut_block
     = Inr ([(Num (PFloat NInf), Num (PInt 0), ''A''), (Num (PFloat PInf), Num (PInt 1), ''B'')],
            [[(Num (PInt 0), Num (PInt 0)), (Num (PInt beyond_float), Num (PInt 0)),
              (Num (PInt 0), Num (PInt 1))]])"
    by (simp add: cut_block_def parse_point_feature parse_polygon_feature int_pair_def)
  have "main cut_block
     = ([PointLine ''A'' (Num (PFloat NaN)) (Num (PFloat (Fin (- 475)))),
         PointLine ''B'' (Num (PFloat NaN)) (Num (PFloat (Fin 475))),
         PolygonOpen,
         VertexLine (Num (PFloat NaN)) (Num (PFloat (Fin (- 475))))], Some OverflowError)"
    unfolding main_def p
    by (simp add: run_defs num_lt_def round64_beyond)
  then show ?thesis using p by simp
qed

text \<open>
  C8, amended. In every run that ends normally, the output is the point lines followed
  by one block for each \<^verbatim>\<open>Polygon\<close> feature of the input, in the order of the features;
  the block of a feature whose ring has \<open>K + 1\<close> entries is the opening line, exactly \<open>K\<close>
  vertex lines, the \<open>i\<close>-th showing the transform of the first two components of the
  \<open>i\<close>-th entry of the ring, and the closing line.
\<close>

theorem C8_completed_run:
  assumes "main features = (out, None)"
  shows "\<exists>points polygons b t pls blocks.
           parse_features ([], []) features = Inr (points, polygons)
           \<and> bounding_box points polygons = Inr b \<and> build_transform b = Inr t
           \<and> out = pls @ concat blocks
           \<and> (\<forall>l \<in> set pls. is_point_line l)
           \<and> list_all2 (block_of t) (polygon_rings features) blocks"
proof -
  obtain points polygons where p: "parse_features ([], []) features = Inr (points, polygons)"
    using assms by (auto simp add: main_def split: sum.splits)
  obtain b where b: "bounding_box points polygons = Inr b"
    using assms p by (auto simp add: main_def split: sum.splits)
  obtain t where t: "build_transform b = Inr t"
    using assms p b by (auto simp add: main_def split: sum.splits)
  have e: "emit t points polygons = (out, None)" using assms p b t by (simp add: main_def)
  have n1: "snd (emit_points t points) = None"
    using e by (auto simp add: emit_def split: option.splits)
  then have o: "out = fst (emit_points t points) @ fst (emit_polygons t polygons)"
    and n2: "snd (emit_polygons t polygons) = None"
    using e by (simp_all add: emit_def)
  obtain blocks where bl: "fst (emit_polygons t polygons) = concat blocks"
      "list_all2 (\<lambda>vs blk. snd (emit_vertices t vs) = None
                \<and> blk = PolygonOpen # fst (emit_vertices t vs) @ [PolygonClose]) polygons blocks"
    using emit_polygons_blocks [OF n2] by blast
  have r: "list_all2 (\<lambda>ring vs. 4 \<le> length ring \<and> vertices (butlast ring) = Inr vs)
                (polygon_rings features) polygons"
    using parse_features_rings [OF p] by simp
  have "list_all2 (block_of t) (polygon_rings features) blocks"
  proof (rule list_all2_all_nthI)
    show "length (polygon_rings features) = length blocks"
      using list_all2_lengthD [OF r] list_all2_lengthD [OF bl(2)] by simp
  next
    fix i assume i: "i < length (polygon_rings features)"
    then have i2: "i < length polygons" using r by (auto dest: list_all2_lengthD)
    have 1: "4 \<le> length (polygon_rings features ! i)"
        "vertices (butlast (polygon_rings features ! i)) = Inr (polygons ! i)"
      using r i by (auto dest: list_all2_nthD)
    have 2: "snd (emit_vertices t (polygons ! i)) = None"
        "blocks ! i = PolygonOpen # fst (emit_vertices t (polygons ! i)) @ [PolygonClose]"
      using bl(2) i2 by (auto dest: list_all2_nthD)
    show "block_of t (polygon_rings features ! i) (blocks ! i)"
      using block_of_ring [OF 1 2(1)] 2(2) by simp
  qed
  then show ?thesis using p b t o bl(1) emit_points_lines by blast
qed

theorem C8_completed_run_witness:
  "main scenario =
       ([PointLine ''A'' (Num (PFloat (Fin 0))) (Num (PFloat (Fin 0))),
         PolygonOpen,
         VertexLine (Num (PFloat (Fin (- 475)))) (Num (PFloat (Fin (- 475)))),
         VertexLine (Num (PFloat (Fin 475))) (Num (PFloat (Fin (- 475)))),
         VertexLine (Num (PFloat (Fin 475))) (Num (PFloat (Fin 475))),
         PolygonClose], None)
   \<and> polygon_rings scenario = [triangle] \<and> length triangle = Suc 3
   \<and> (\<exists>points polygons b t pls blocks.
           parse_features ([], []) scenario = Inr (points, polygons)
           \<and> bounding_box points polygons = Inr b \<and> build_transform b = Inr t
           \<and> [PointLine ''A'' (Num (PFloat (Fin 0))) (Num (PFloat (Fin 0))),
         PolygonOpen,
         VertexLine (Num (PFloat (Fin (- 475)))) (Num (PFloat (Fin (- 475)))),
         VertexLine (Num (PFloat (Fin 475))) (Num (PFloat (Fin (- 475)))),
         VertexLine (Num (PFloat (Fin 475))) (Num (PFloat (Fin 475))),
         PolygonClose] = pls @ concat blocks
           \<and> (\<forall>l \<in> set pls. is_point_line l)
           \<and> list_all2 (block_of t) (polygon_rings scenario) blocks)"
proof -
  have r: "polygon_rings scenario = [triangle]"
    by (simp add: polygon_rings_def scenario_def point_feature_def polygon_feature_def)
  have l: "length triangle = Suc 3" by (simp add: triangle_def)
  show ?thesis using run_scenario r l C8_completed_run [OF run_scenario] by blast
qed

text \<open>
  C9. In every run, completed or not, the lines printed are point lines followed by
  lines of polygon blocks: no point line comes after a line of a polygon block, in
  whatever order the point and polygon features stand in the input.
\<close>

theorem C9_points_before_polygons:
  "\<exists>ps qs. fst (main features) = ps @ qs
      \<and> (\<forall>l \<in> set ps. is_point_line l) \<and> (\<forall>l \<in> set qs. \<not> is_point_line l)"
proof -
  have "fst (main features) = [] \<or> (\<exists>t points polygons. fst (main features) = fst (emit t points polygons))"
    by (auto simp add: main_def split: sum.splits prod.splits)
  then show ?thesis using emit_split by (metis append_Nil empty_iff list.set(1))
qed

theorem C9_points_before_polygons_witness:
  "main interleaved =
     ([PointLine ''A'' (Num (PFloat (Fin 0))) (Num (PFloat (Fin 0))),
       PointLine ''B'' (Num (PFloat (Fin 475))) (Num (PFloat (Fin (- 475)))),
       PolygonOpen,
       VertexLine (Num (PFloat (Fin (- 475)))) (Num (PFloat (Fin (- 475)))),
       VertexLine (Num (PFloat (Fin 475))) (Num (PFloat (Fin (- 475)))),
       VertexLine (Num (PFloat (Fin 475))) (Num (PFloat (Fin 475))),
       PolygonClose,
       PolygonOpen,
       VertexLine (Num (PFloat (Fin (- 475)))) (Num (PFloat (Fin (- 475)))),
       VertexLine (Num (PFloat (Fin 475))) (Num (PFloat (Fin (- 475)))),
       VertexLine (Num (PFloat (Fin 475))) (Num (PFloat (Fin 475))),
       PolygonClose], None)
   \<and> (\<exists>ps qs. fst (main interleaved) = ps @ qs
        \<and> (\<forall>l \<in> set ps. is_point_line l) \<and> (\<forall>l \<in> set qs. \<not> is_point_line l))"
proof -
  have p: "parse_features ([], []) interleaved =
     Inr ([(Num (PInt 10), Num (PInt 10), ''A''), (Num (PInt 20), Num (PInt 0), ''B'')],
          [[(Num (PInt 0), Num (PInt 0)), (Num (PInt 20), Num (PInt 0)),
            (Num (PInt 20), Num (PInt 20))],
           [(Num (PInt 0), Num (PInt 0)), (Num (PInt 20), Num (PInt 0)),
            (Num (PInt 20), Num (PInt 20))]])"
    by (simp add: interleaved_def parse_triangle parse_point_feature int_pair_def)
  have m: "main interleaved =
     ([PointLine ''A'' (Num (PFloat (Fin 0))) (Num (PFloat (Fin 0))),
       PointLine ''B'' (Num (PFloat (Fin 475))) (Num (PFloat (Fin (- 475)))),
       PolygonOpen,
       VertexLine (Num (PFloat (Fin (- 475)))) (Num (PFloat (Fin (- 475)))),
       VertexLine (Num (PFloat (Fin 475))) (Num (PFloat (Fin (- 475)))),
       VertexLine (Num (PFloat (Fin 475))) (Num (PFloat (Fin 475))),
       PolygonClose,
       PolygonOpen,
       VertexLine (Num (PFloat (Fin (- 475)))) (Num (PFloat (Fin (- 475)))),
       VertexLine (Num (PFloat (Fin 475))) (Num (PFloat (Fin (- 475)))),
       VertexLine (Num (PFloat (Fin 475))) (Num (PFloat (Fin 475))),
       PolygonClose], None)"
    unfolding main_def p by (simp add: run_defs)
  show ?thesis using m C9_points_before_polygons [of interleaved] by blast
qed

text \<open>
  C10. The components of a ring entry are not counted: a polygon whose ring entries
  have two components or more is accepted and each vertex is made of the first two
  components of its entry; the coordinates of a point feature fail the assertion
  unless they are exactly two.
\<close>

theorem C10_vertex_arity_unchecked:
  "(geometry_type (geometry f) = ''Polygon'' \<and> coordinates (geometry f) = Some (Arr [Arr ring])
      \<and> 4 \<le> length ring \<and> py_eq (hd ring) (last ring) \<and> (\<forall>v \<in> set (butlast ring). two_or_more v)
      \<longrightarrow> parse_feature (pts, pgs) f = Inr (pts, pgs @ [map first_two (butlast ring)]))
   \<and> (geometry_type (geometry g) = ''Point'' \<and> coordinates (geometry g) = Some (Arr cs)
      \<and> length cs \<noteq> 2
      \<longrightarrow> parse_feature (pts, pgs) g = Inl AssertionError)"
  by (simp add: parse_feature_def parse_polygon_accept parse_point_def)

theorem C10_vertex_arity_unchecked_witness:
  "geometry_type (geometry (polygon_feature ring_with_heights)) = ''Polygon''
   \<and> coordinates (geometry (polygon_feature ring_with_heights)) = Some (Arr [Arr ring_with_heights])
   \<and> 4 \<le> length ring_with_heights
   \<and> py_eq (hd ring_with_heights) (last ring_with_heights)
   \<and> list_all two_or_more (butlast ring_with_heights)
   \<and> parse_feature ([], []) (polygon_feature ring_with_heights)
       = Inr ([], [[(Num (PInt 0), Num (PInt 0)), (Num (PInt 20), Num (PInt 0)),
                    (Num (PInt 20), Num (PInt 20))]])
   \<and> geometry_type (geometry (point_feature ''A'' (Arr [Num (PInt 1), Num (PInt 2), Num (PInt 3)]))) = ''Point''
   \<and> coordinates (geometry (point_feature ''A'' (Arr [Num (PInt 1), Num (PInt 2), Num (PInt 3)])))
       = Some (Arr [Num (PInt 1), Num (PInt 2), Num (PInt 3)])
   \<and> length [Num (PInt 1), Num (PInt 2), Num (PInt 3)] \<noteq> 2
   \<and> parse_feature ([], []) (point_feature ''A'' (Arr [Num (PInt 1), Num (PInt 2), Num (PInt 3)]))
       = Inl AssertionError"
proof -
  have a: "geometry_type (geometry (polygon_feature ring_with_heights)) = ''Polygon''"
    "coordinates (geometry (polygon_feature ring_with_heights)) = Some (Arr [Arr ring_with_heights])"
    "geometry_type (geometry (point_feature ''A'' (Arr [Num (PInt 1), Num (PInt 2), Num (PInt 3)]))) = ''Point''"
    "coordinates (geometry (point_feature ''A'' (Arr [Num (PInt 1), Num (PInt 2), Num (PInt 3)])))
       = Some (Arr [Num (PInt 1), Num (PInt 2), Num (PInt 3)])"
    by (simp_all add: polygon_feature_def point_feature_def)
  have b: "4 \<le> length ring_with_heights"
    "py_eq (hd ring_with_heights) (last ring_with_heights)"
    "\<forall>v \<in> set (butlast ring_with_heights). two_or_more v"
    "length [Num (PInt 1), Num (PInt 2), Num (PInt 3)] \<noteq> 2"
    by (simp_all add: ring_with_heights_def)
  have c: "map first_two (butlast ring_with_heights)
       = [(Num (PInt 0), Num (PInt 0)), (Num (PInt 20), Num (PInt 0)),
          (Num (PInt 20), Num (PInt 20))]"
    by (simp add: ring_with_heights_def)
  have d: "list_all two_or_more (butlast ring_with_heights)"
    using b(3) by (simp only: list_all_iff)
  show ?thesis
    using a b c d
      C10_vertex_arity_unchecked [where f = "polygon_feature ring_with_heights"
        and ring = ring_with_heights
        and g = "point_feature ''A'' (Arr [Num (PInt 1), Num (PInt 2), Num (PInt 3)])"
        and cs = "[Num (PInt 1), Num (PInt 2), Num (PInt 3)]" and pts = "[]" and pgs = "[]"]
    by simp
qed

end
